theory Spec2Isabelle
  imports Complex_Main
begin

section \<open>JavaScript values\<close>

text \<open>
  The dashboard is dynamically typed JavaScript. The values that reach the code under
  study are the results of \<^verbatim>\<open>JSON.parse\<close> (null, booleans, numbers, strings, arrays,
  objects), the raw \<^verbatim>\<open>event.data\<close> of a frame (a string for a text frame, a
  \<^verbatim>\<open>Blob\<close> for a binary one) and \<^verbatim>\<open>undefined\<close> for an absent property.

  Numbers are idealised: a finite double is the rational it denotes and arithmetic is
  exact; \<^verbatim>\<open>NaN\<close> is a value of its own. Infinities, the exponent notation of
  magnitudes from \<^verbatim>\<open>1e21\<close> on and binary rounding are outside this model.
\<close>

datatype jsval =
    JUndefined
  | JNull
  | JBool bool
  | JNum rat
  | JStr string
  | JArr "jsval list"
  | JObj "(string \<times> jsval) list"
  | JBlob "nat list"

datatype jsnum = NaN | Fin rat

datatype js_error = TypeError | SyntaxError

text \<open>ToBoolean, as used by \<^verbatim>\<open>&&\<close>, \<^verbatim>\<open>||\<close> and \<^verbatim>\<open>if\<close>.\<close>

fun truthy :: "jsval \<Rightarrow> bool" where
  "truthy JUndefined = False"
| "truthy JNull = False"
| "truthy (JBool b) = b"
| "truthy (JNum q) = (q \<noteq> 0)"
| "truthy (JStr s) = (s \<noteq> [])"
| "truthy (JArr _) = True"
| "truthy (JObj _) = True"
| "truthy (JBlob _) = True"

fun truthy_num :: "jsnum \<Rightarrow> bool" where
  "truthy_num NaN = False"
| "truthy_num (Fin q) = (q \<noteq> 0)"

text \<open>
  A property read \<^verbatim>\<open>v.name\<close> for the names the dashboard reads (\<^verbatim>\<open>z_score\<close>,
  \<^verbatim>\<open>hedge_ratio\<close>, \<^verbatim>\<open>latest_spread\<close>, \<^verbatim>\<open>symbol_pair\<close>,
  \<^verbatim>\<open>pie_summary\<close>): an object yields its own property or \<^verbatim>\<open>undefined\<close>; a boolean,
  number, string, array or blob has no property of these names. The read on
  \<^verbatim>\<open>null\<close> and \<^verbatim>\<open>undefined\<close> would throw, and the source never performs it: every
  read is behind \<^verbatim>\<open>liveData &&\<close>.
\<close>

fun get_prop :: "jsval \<Rightarrow> string \<Rightarrow> jsval" where
  "get_prop (JObj kvs) k = (case map_of kvs k of Some v \<Rightarrow> v | None \<Rightarrow> JUndefined)"
| "get_prop _ k = JUndefined"

text \<open>\<^verbatim>\<open>a || b\<close> on values.\<close>

definition js_or :: "jsval \<Rightarrow> jsval \<Rightarrow> jsval" where
  "js_or a b = (if truthy a then a else b)"

subsection \<open>Number.prototype.toFixed\<close>

definition digit_char :: "nat \<Rightarrow> char" where
  "digit_char n = ''0123456789'' ! n"

fun string_of_nat :: "nat \<Rightarrow> string" where
  "string_of_nat n =
     (if n < 10 then [digit_char n]
      else string_of_nat (n div 10) @ [digit_char (n mod 10)])"

declare string_of_nat.simps [simp del]

definition pad_zeros :: "nat \<Rightarrow> string \<Rightarrow> string" where
  "pad_zeros d s = replicate (d - length s) (CHR ''0'') @ s"

text \<open>
  \<^verbatim>\<open>x.toFixed(d)\<close> on a number: the sign, then the integer \<open>n\<close> nearest to
  \<open>|x| * 10^d\<close> (the larger one on a tie) written with \<open>d\<close> digits after the point.
\<close>

definition num_to_fixed :: "nat \<Rightarrow> rat \<Rightarrow> string" where
  "num_to_fixed d x =
     (let n = nat \<lfloor>\<bar>x\<bar> * 10 ^ d + 1 / 2\<rfloor>
      in (if x < 0 then ''-'' else '''') @ string_of_nat (n div 10 ^ d) @
         (if d = 0 then '''' else ''.'' @ pad_zeros d (string_of_nat (n mod 10 ^ d))))"

text \<open>
  The call \<^verbatim>\<open>v.toFixed(d)\<close> on a value that is not \<^verbatim>\<open>undefined\<close>: only a number has
  the method. On \<^verbatim>\<open>null\<close> the property read throws a TypeError; on a boolean, string,
  array, object or blob \<^verbatim>\<open>v.toFixed\<close> is \<^verbatim>\<open>undefined\<close> (or, in a parsed object with
  such a key, not a function) and the call throws a TypeError.
\<close>

fun toFixed :: "jsval \<Rightarrow> nat \<Rightarrow> js_error + string" where
  "toFixed (JNum x) d = Inr (num_to_fixed d x)"
| "toFixed _ d = Inl TypeError"

subsection \<open>parseFloat and string-to-number conversion\<close>

definition digit_table :: "(char \<times> nat) list" where
  "digit_table =
     [(CHR ''0'', 0), (CHR ''1'', 1), (CHR ''2'', 2), (CHR ''3'', 3), (CHR ''4'', 4),
      (CHR ''5'', 5), (CHR ''6'', 6), (CHR ''7'', 7), (CHR ''8'', 8), (CHR ''9'', 9)]"

definition is_digit :: "char \<Rightarrow> bool" where
  "is_digit c = (map_of digit_table c \<noteq> None)"

definition digit_val :: "char \<Rightarrow> nat" where
  "digit_val c = (case map_of digit_table c of None \<Rightarrow> 0 | Some d \<Rightarrow> d)"

definition digits_val :: "string \<Rightarrow> nat" where
  "digits_val ds = foldl (\<lambda>a c. 10 * a + digit_val c) 0 ds"

text \<open>
  The longest prefix that is a decimal literal: an optional sign, digits, an optional
  point and digits; at least one digit. The result is the value and the rest of the
  string. Leading white space, exponents and \<^verbatim>\<open>Infinity\<close> are not modelled: the strings
  this is applied to are the sentinel \<^verbatim>\<open>'---'\<close> and results of \<^verbatim>\<open>toFixed\<close>.
\<close>

definition parse_decimal :: "string \<Rightarrow> (rat \<times> string) option" where
  "parse_decimal s =
     (let (neg, s1) =
            (case s of
               [] \<Rightarrow> (False, [])
             | c # r \<Rightarrow> if c = CHR ''-'' then (True, r)
                        else if c = CHR ''+'' then (False, r) else (False, s));
          ip = takeWhile is_digit s1;
          s2 = dropWhile is_digit s1;
          (fp, s3) =
            (case s2 of
               [] \<Rightarrow> ([], [])
             | c # r \<Rightarrow> if c = CHR ''.'' then (takeWhile is_digit r, dropWhile is_digit r)
                        else ([], s2))
      in if ip = [] \<and> fp = [] then None
         else Some ((if neg then - 1 else 1) *
                      (of_nat (digits_val ip) + of_nat (digits_val fp) / 10 ^ length fp),
                    s3))"

definition parseFloat :: "string \<Rightarrow> jsnum" where
  "parseFloat s = (case parse_decimal s of None \<Rightarrow> NaN | Some (q, _) \<Rightarrow> Fin q)"

text \<open>ToNumber on a string, as applied by the binary \<^verbatim>\<open>-\<close>: the whole string must be a literal.\<close>

definition to_number :: "string \<Rightarrow> jsnum" where
  "to_number s =
     (if s = [] then Fin 0
      else case parse_decimal s of
             None \<Rightarrow> NaN
           | Some (q, r) \<Rightarrow> if r = [] then Fin q else NaN)"

fun js_minus :: "jsnum \<Rightarrow> jsnum \<Rightarrow> jsnum" where
  "js_minus (Fin a) (Fin b) = Fin (a - b)"
| "js_minus _ _ = NaN"

section \<open>The live metrics store (App.jsx)\<close>

record analytics_rec =
  z_score :: string
  hedge_ratio :: string
  latest_spread :: string
  symbol_pair :: jsval
  pie_summary :: jsval

record history_rec =
  hedgeRatio :: "jsval list"
  spreadVelocity :: "jsnum list"
  timestamps :: "string list"

text \<open>The three pieces of React state of \<^verbatim>\<open>App\<close> that one render sees.\<close>

record app =
  analytics :: analytics_rec
  prevAnalytics :: analytics_rec
  history :: history_rec

definition initial_analytics :: analytics_rec where
  "initial_analytics =
     \<lparr>z_score = ''---'', hedge_ratio = ''---'', latest_spread = ''---'',
      symbol_pair = JStr ''BTCUSDT / ETHUSDT'',
      pie_summary = JObj [(''long'', JNum (1 / 10)), (''short'', JNum (1 / 10)),
                          (''neutral'', JNum (8 / 10))]\<rparr>"

text \<open>
  \<^verbatim>\<open>Array(10).fill(...)\<close>: the source fixes the length at 10; the length is a parameter
  here so that other capacities can be stated.
\<close>

definition history_of_capacity :: "nat \<Rightarrow> history_rec" where
  "history_of_capacity n =
     \<lparr>hedgeRatio = replicate n JNull, spreadVelocity = replicate n (Fin 0),
      timestamps = replicate n ''''\<rparr>"

definition initial_history :: history_rec where
  "initial_history = history_of_capacity 10"

definition app_of_capacity :: "nat \<Rightarrow> app" where
  "app_of_capacity n =
     \<lparr>analytics = initial_analytics, prevAnalytics = initial_analytics,
      history = history_of_capacity n\<rparr>"

definition initial_app :: app where
  "initial_app = app_of_capacity 10"

text \<open>
  \<^verbatim>\<open>updateHistory(currentData)\<close>, memoised on \<^verbatim>\<open>[prevAnalytics]\<close>: the snapshot it
  subtracts from is the \<^verbatim>\<open>prevAnalytics\<close> of the render that created the callback.
  \<^verbatim>\<open>xs.slice(1)\<close> is \<open>drop 1 xs\<close>. \<^verbatim>\<open>parseFloat(p) || currentSpread\<close> is a number when
  the parse is truthy and the string \<^verbatim>\<open>currentSpread\<close> otherwise; the subtraction then
  converts both operands to numbers.
\<close>

definition updateHistory :: "analytics_rec \<Rightarrow> string \<Rightarrow> analytics_rec \<Rightarrow> history_rec \<Rightarrow> history_rec" where
  "updateHistory prevA now currentData prev =
     (let newHedge = drop 1 (hedgeRatio prev) @ [JStr (hedge_ratio currentData)];
          currentSpread = latest_spread currentData;
          prevSpread = (if truthy_num (parseFloat (latest_spread prevA))
                        then parseFloat (latest_spread prevA)
                        else to_number currentSpread);
          velocity = js_minus (to_number currentSpread) prevSpread;
          newVelocity = drop 1 (spreadVelocity prev) @ [velocity];
          newTimestamps = drop 1 (timestamps prev) @ [now]
      in \<lparr>hedgeRatio = newHedge, spreadVelocity = newVelocity, timestamps = newTimestamps\<rparr>)"

text \<open>
  \<^verbatim>\<open>liveData.f !== undefined ? liveData.f.toFixed(d) : analytics.f\<close>.
\<close>

definition fixed_or_held :: "jsval \<Rightarrow> nat \<Rightarrow> string \<Rightarrow> js_error + string" where
  "fixed_or_held v d held = (if v \<noteq> JUndefined then toFixed v d else Inr held)"

text \<open>
  The guard of the update effect: \<^verbatim>\<open>liveData && liveData.z_score !== undefined\<close>.
\<close>

definition accepted :: "jsval \<Rightarrow> bool" where
  "accepted msg = (truthy msg \<and> get_prop msg ''z_score'' \<noteq> JUndefined)"

text \<open>
  One run of the update effect of \<^verbatim>\<open>App\<close> in a render with state \<open>st\<close>, with
  \<open>msg\<close> the \<^verbatim>\<open>liveData\<close> delivered by the hook and \<open>now\<close> the formatted wall-clock
  time. The three \<^verbatim>\<open>toFixed\<close> calls are evaluated in the order of the object literal; a
  TypeError leaves the effect (and, with no error boundary, unmounts the tree): the
  result is then \<open>Inl\<close>.
\<close>

definition update_effect :: "string \<Rightarrow> jsval \<Rightarrow> app \<Rightarrow> js_error + app" where
  "update_effect now msg st =
     (if accepted msg then
        (case fixed_or_held (get_prop msg ''z_score'') 2 (z_score (analytics st)) of
           Inl e \<Rightarrow> Inl e
         | Inr z \<Rightarrow>
        (case fixed_or_held (get_prop msg ''hedge_ratio'') 4 (hedge_ratio (analytics st)) of
           Inl e \<Rightarrow> Inl e
         | Inr h \<Rightarrow>
        (case fixed_or_held (get_prop msg ''latest_spread'') 3 (latest_spread (analytics st)) of
           Inl e \<Rightarrow> Inl e
         | Inr sp \<Rightarrow>
            (let newAnalytics =
                   \<lparr>z_score = z, hedge_ratio = h, latest_spread = sp,
                    symbol_pair = js_or (get_prop msg ''symbol_pair'') (symbol_pair (analytics st)),
                    pie_summary = js_or (get_prop msg ''pie_summary'') (pie_summary (analytics st))\<rparr>
             in Inr \<lparr>analytics = newAnalytics, prevAnalytics = analytics st,
                     history = updateHistory (prevAnalytics st) now newAnalytics (history st)\<rparr>))))
      else Inr st)"

text \<open>
  A sequence of runs of the update effect, one for each pair of receipt time and
  \<^verbatim>\<open>liveData\<close>, in order; the first TypeError ends it. The hook delivers one value per
  frame, so a sequence of frames is a sequence of runs; React also runs the effect
  again when \<^verbatim>\<open>analytics\<close> or \<^verbatim>\<open>updateHistory\<close> changed, with the same
  \<^verbatim>\<open>liveData\<close>, and such a run is one more element of the list. What is proved for
  all lists holds for both.
\<close>

fun run_updates :: "(string \<times> jsval) list \<Rightarrow> app \<Rightarrow> js_error + app" where
  "run_updates [] st = Inr st"
| "run_updates ((now, v) # ms) st =
     (case update_effect now v st of Inl e \<Rightarrow> Inl e | Inr st' \<Rightarrow> run_updates ms st')"

text \<open>
  A well-formed update of the server: the parsed
  \<^verbatim>\<open>{"z_score": z, "hedge_ratio": h, "latest_spread": sp}\<close>.
\<close>

definition update_msg :: "rat \<Rightarrow> rat \<Rightarrow> rat \<Rightarrow> jsval" where
  "update_msg z h sp =
     JObj [(''z_score'', JNum z), (''hedge_ratio'', JNum h), (''latest_spread'', JNum sp)]"

text \<open>\<^verbatim>\<open>typeof v === "number"\<close>.\<close>

fun is_number :: "jsval \<Rightarrow> bool" where
  "is_number (JNum x) = True"
| "is_number _ = False"

section \<open>URL resolution (hooks/useWebSocket.js)\<close>

text \<open>
  The part of the browser's \<^verbatim>\<open>window\<close> that \<^verbatim>\<open>buildDefaultUrl\<close> reads. The globals
  \<^verbatim>\<open>__WS_URL__\<close> and \<^verbatim>\<open>__WS_PORT__\<close> are a string or not set (\<open>None\<close>); the empty
  string is falsy. \<open>location = None\<close> is a host whose \<^verbatim>\<open>window\<close> has no
  \<^verbatim>\<open>location\<close>: reading \<^verbatim>\<open>window.location.protocol\<close> throws a TypeError there.
  A whole environment is \<open>window option\<close>, \<open>None\<close> when \<^verbatim>\<open>typeof window\<close> is
  \<^verbatim>\<open>"undefined"\<close>. The copy of \<^verbatim>\<open>buildDefaultUrl\<close> in \<^verbatim>\<open>App.jsx\<close> does not read the
  two globals: it is this one on a \<^verbatim>\<open>window\<close> where they are not set.
\<close>

record location_rec =
  protocol :: string
  hostname :: string

record window =
  WS_URL :: "string option"
  WS_PORT :: "string option"
  location :: "location_rec option"

definition DEFAULT_BACKEND_PORT :: string where
  "DEFAULT_BACKEND_PORT = ''8000''"

definition DEFAULT_PATH :: string where
  "DEFAULT_PATH = ''/ws/live-analytics''"

definition RECONNECT_MS :: nat where
  "RECONNECT_MS = 5000"

definition fallback_url :: string where
  "fallback_url = ''ws://localhost:'' @ DEFAULT_BACKEND_PORT @ DEFAULT_PATH"

text \<open>\<^verbatim>\<open>x || d\<close> for a global that is a string or not set.\<close>

definition str_or :: "string option \<Rightarrow> string \<Rightarrow> string" where
  "str_or x d = (case x of None \<Rightarrow> d | Some s \<Rightarrow> if s = [] then d else s)"

text \<open>
  The body of the \<^verbatim>\<open>try\<close> block of \<^verbatim>\<open>buildDefaultUrl\<close>: \<open>Inr (Some u)\<close> is
  \<^verbatim>\<open>return u\<close>, \<open>Inr None\<close> is leaving the block without a return, \<open>Inl\<close> is a throw.
\<close>

definition buildDefaultUrl_try :: "window option \<Rightarrow> js_error + string option" where
  "buildDefaultUrl_try w =
     (case w of
        None \<Rightarrow> Inr None
      | Some win \<Rightarrow>
          if str_or (WS_URL win) [] \<noteq> [] then Inr (Some (str_or (WS_URL win) []))
          else
            (let port = str_or (WS_PORT win) DEFAULT_BACKEND_PORT
             in case location win of
                  None \<Rightarrow> Inl TypeError
                | Some loc \<Rightarrow>
                    (let proto = (if protocol loc = ''https:'' then ''wss:'' else ''ws:'');
                         host = (if hostname loc = [] then ''localhost'' else hostname loc)
                     in Inr (Some (proto @ ''//'' @ host @ '':'' @ port @ DEFAULT_PATH)))))"

text \<open>
  \<^verbatim>\<open>buildDefaultUrl\<close>: the URL and the lines written by \<^verbatim>\<open>console.error\<close>.
\<close>

definition buildDefaultUrl :: "window option \<Rightarrow> string \<times> string list" where
  "buildDefaultUrl w =
     (case buildDefaultUrl_try w of
        Inr (Some u) \<Rightarrow> (u, [])
      | Inr None \<Rightarrow> (fallback_url, [])
      | Inl e \<Rightarrow> (fallback_url, [''Error building default WS URL:'']))"

text \<open>
  \<^verbatim>\<open>getUrl\<close>: \<^verbatim>\<open>typeof urlOverride === "string" && urlOverride.length\<close>.
\<close>

definition getUrl :: "jsval \<Rightarrow> window option \<Rightarrow> string \<times> string list" where
  "getUrl urlOverride w =
     (case urlOverride of
        JStr u \<Rightarrow> if u \<noteq> [] then (u, []) else buildDefaultUrl w
      | _ \<Rightarrow> buildDefaultUrl w)"

section \<open>The reconnecting WebSocket hook (App.jsx)\<close>

text \<open>
  The hook integrated in \<^verbatim>\<open>App.jsx\<close>; the one of \<^verbatim>\<open>hooks/useWebSocket.js\<close> is the
  same code without the \<^verbatim>\<open>readyState\<close> state.

  The transport is the browser's \<^verbatim>\<open>WebSocket\<close>. Of a socket the model keeps its
  \<^verbatim>\<open>readyState\<close> and, for each of the four handler properties, whether the hook's
  handler is assigned (\<open>True\<close>) or the property is \<^verbatim>\<open>null\<close>.
\<close>

datatype ready_state = CONNECTING | OPEN | CLOSING | CLOSED | UNSENT

record socket =
  sock_state :: ready_state
  onopen :: bool
  onmessage :: bool
  onerror :: bool
  onclose :: bool

text \<open>A received frame: \<^verbatim>\<open>event.data\<close> is a string or, for a binary frame, a blob.\<close>

datatype payload = Text string | Binary "nat list"

text \<open>The string \<^verbatim>\<open>JSON.parse\<close> sees, and the value \<^verbatim>\<open>event.data\<close> itself.\<close>

fun payload_text :: "payload \<Rightarrow> string" where
  "payload_text (Text t) = t"
| "payload_text (Binary b) = ''[object Blob]''"

fun payload_raw :: "payload \<Rightarrow> jsval" where
  "payload_raw (Text t) = JStr t"
| "payload_raw (Binary b) = JBlob b"

text \<open>What the hook tells its consumer: the calls of its two state setters, in order.\<close>

datatype emit = StateChange ready_state | Message jsval

text \<open>
  The state: the hook's React state and refs, then the browser's sockets (a socket is
  named by its index), pending timers (identifier and due time) and clock, then
  bookkeeping for the statements below: the setter calls made so far, the number of
  \<^verbatim>\<open>new WebSocket\<close> calls made so far, and whether the lifecycle effect is mounted.
  \<^verbatim>\<open>setTimeout\<close> returns positive identifiers, so a stored identifier is truthy.
\<close>

record hook =
  liveData :: jsval
  readyState :: ready_state
  shouldConnectRef :: bool
  wsRef :: "nat option"
  reconnectTimerRef :: "nat option"
  connectRef :: bool
  sockets :: "socket list"
  timers :: "(nat \<times> nat) list"
  clock :: nat
  next_timer :: nat
  emitted :: "emit list"
  ctor_calls :: nat
  mounted :: bool

text \<open>
  What the hook is given: its argument, the \<^verbatim>\<open>window\<close>, the URLs on which
  \<^verbatim>\<open>new WebSocket\<close> throws, and \<^verbatim>\<open>JSON.parse\<close> (\<open>None\<close> where it throws a
  SyntaxError).
\<close>

record env =
  urlOverride :: jsval
  env_window :: "window option"
  ctor_throws :: "string \<Rightarrow> bool"
  json_parse :: "string \<Rightarrow> jsval option"

definition initial_hook :: hook where
  "initial_hook =
     \<lparr>liveData = JNull, readyState = UNSENT, shouldConnectRef = True, wsRef = None,
      reconnectTimerRef = None, connectRef = False, sockets = [], timers = [], clock = 0,
      next_timer = 1, emitted = [], ctor_calls = 0, mounted = False\<rparr>"

definition setReadyState :: "ready_state \<Rightarrow> hook \<Rightarrow> hook" where
  "setReadyState r s = s\<lparr>readyState := r, emitted := emitted s @ [StateChange r]\<rparr>"

definition setLiveData :: "jsval \<Rightarrow> hook \<Rightarrow> hook" where
  "setLiveData v s = s\<lparr>liveData := v, emitted := emitted s @ [Message v]\<rparr>"

definition live :: "socket \<Rightarrow> bool" where
  "live sk = (sock_state sk = OPEN \<or> sock_state sk = CONNECTING)"

definition set_sock_state :: "nat \<Rightarrow> ready_state \<Rightarrow> hook \<Rightarrow> hook" where
  "set_sock_state i r s = s\<lparr>sockets := (sockets s)[i := (sockets s ! i)\<lparr>sock_state := r\<rparr>]\<rparr>"

text \<open>
  \<^verbatim>\<open>ws.close(...)\<close> of the browser: an open or connecting socket starts closing; the
  close event comes later. On a closing or closed socket it does nothing.
\<close>

definition sock_close :: "nat \<Rightarrow> hook \<Rightarrow> hook" where
  "sock_close i s =
     (if i < length (sockets s) \<and> live (sockets s ! i) then set_sock_state i CLOSING s else s)"

text \<open>The four assignments \<^verbatim>\<open>ws.onopen = null; ...; ws.onclose = null\<close>.\<close>

definition detach :: "nat \<Rightarrow> hook \<Rightarrow> hook" where
  "detach i s =
     s\<lparr>sockets := (sockets s)[i := (sockets s ! i)\<lparr>onopen := False, onmessage := False,
                                                    onerror := False, onclose := False\<rparr>]\<rparr>"

definition clearTimeout :: "nat \<Rightarrow> hook \<Rightarrow> hook" where
  "clearTimeout t s = s\<lparr>timers := filter (\<lambda>p. fst p \<noteq> t) (timers s)\<rparr>"

text \<open>
  The guarded close of \<^verbatim>\<open>cleanupSocket\<close>:
  \<^verbatim>\<open>if (readyState === OPEN || readyState === CONNECTING) ws.close(1000, "cleanup")\<close>.
\<close>

definition close_if_live :: "nat \<Rightarrow> hook \<Rightarrow> hook" where
  "close_if_live i s =
     (if i < length (sockets s) \<and> live (sockets s ! i) then sock_close i s else s)"

text \<open>
  \<^verbatim>\<open>cleanupSocket\<close>. Nothing in its \<^verbatim>\<open>try\<close> block throws (assignments, and a close
  with code 1000 and a short reason), so the \<^verbatim>\<open>catch\<close> is not entered; the
  \<^verbatim>\<open>finally\<close> clears the reference.
\<close>

definition cleanupSocket :: "hook \<Rightarrow> hook" where
  "cleanupSocket s =
     (let s1 = (case reconnectTimerRef s of
                  None \<Rightarrow> s
                | Some t \<Rightarrow> (clearTimeout t s)\<lparr>reconnectTimerRef := None\<rparr>);
          s2 = (case wsRef s1 of
                  None \<Rightarrow> s1
                | Some i \<Rightarrow> close_if_live i (detach i s1))
      in s2\<lparr>wsRef := None\<rparr>)"

definition scheduleReconnect :: "hook \<Rightarrow> hook" where
  "scheduleReconnect s =
     (if \<not> shouldConnectRef s then s
      else if reconnectTimerRef s \<noteq> None then s
      else s\<lparr>reconnectTimerRef := Some (next_timer s),
             timers := timers s @ [(next_timer s, clock s + RECONNECT_MS)],
             next_timer := Suc (next_timer s)\<rparr>)"

text \<open>The test \<^verbatim>\<open>wsRef.current && (readyState === OPEN || readyState === CONNECTING)\<close>.\<close>

definition current_live :: "hook \<Rightarrow> bool" where
  "current_live s =
     (case wsRef s of None \<Rightarrow> False | Some i \<Rightarrow> i < length (sockets s) \<and> live (sockets s ! i))"

definition new_socket :: socket where
  "new_socket =
     \<lparr>sock_state = CONNECTING, onopen = True, onmessage = True, onerror = True, onclose = True\<rparr>"

definition connect :: "env \<Rightarrow> hook \<Rightarrow> hook" where
  "connect E s =
     (if \<not> shouldConnectRef s then s
      else if current_live s then s
      else
        (let url = fst (getUrl (urlOverride E) (env_window E));
             s1 = setReadyState CONNECTING s;
             s2 = s1\<lparr>ctor_calls := Suc (ctor_calls s1)\<rparr>
         in if ctor_throws E url then scheduleReconnect s2
            else s2\<lparr>sockets := sockets s2 @ [new_socket], wsRef := Some (length (sockets s2))\<rparr>))"

text \<open>The four handlers that \<^verbatim>\<open>connect\<close> assigns.\<close>

definition onopen_handler :: "hook \<Rightarrow> hook" where
  "onopen_handler s = setReadyState OPEN s"

definition try_parse :: "env \<Rightarrow> payload \<Rightarrow> hook \<Rightarrow> js_error + hook" where
  "try_parse E d s =
     (case json_parse E (payload_text d) of
        None \<Rightarrow> Inl SyntaxError
      | Some v \<Rightarrow> Inr (setLiveData v s))"

definition onmessage_handler :: "env \<Rightarrow> payload \<Rightarrow> hook \<Rightarrow> hook" where
  "onmessage_handler E d s =
     (case try_parse E d s of
        Inr s' \<Rightarrow> s'
      | Inl e \<Rightarrow> setLiveData (payload_raw d) s)"

text \<open>
  The error handler closes \<^verbatim>\<open>wsRef.current\<close>, whichever socket reported the error;
  with no current socket the call throws a TypeError, which its \<^verbatim>\<open>catch\<close> logs.
\<close>

definition onerror_handler :: "hook \<Rightarrow> hook" where
  "onerror_handler s =
     (let s1 = setReadyState CLOSED s
      in case wsRef s1 of None \<Rightarrow> s1 | Some i \<Rightarrow> sock_close i s1)"

definition onclose_handler :: "hook \<Rightarrow> hook" where
  "onclose_handler s = scheduleReconnect (setReadyState CLOSED s)"

text \<open>The lifecycle effect and its cleanup.\<close>

definition mount_effect :: "env \<Rightarrow> hook \<Rightarrow> hook" where
  "mount_effect E s = connect E (s\<lparr>connectRef := True, shouldConnectRef := True, mounted := True\<rparr>)"

definition teardown :: "hook \<Rightarrow> hook" where
  "teardown s = (cleanupSocket (s\<lparr>shouldConnectRef := False\<rparr>))\<lparr>mounted := False\<rparr>"

text \<open>The callback given to \<^verbatim>\<open>setTimeout\<close>.\<close>

definition timer_callback :: "env \<Rightarrow> hook \<Rightarrow> hook" where
  "timer_callback E s =
     (let s1 = s\<lparr>reconnectTimerRef := None\<rparr>
      in if connectRef s1 then connect E s1 else s1)"

subsection \<open>Events\<close>

text \<open>
  What can happen to the hook. React runs the lifecycle effect when it is not mounted
  and its cleanup before every re-run and at unmount; \<^verbatim>\<open>connect\<close> is a closure of the
  hook, called by the effect and by the timer callback only, and \<open>CallConnect\<close> is one
  more call of it from anywhere. The browser fires a timer that is pending and due.
  On a socket the browser may: open it when it is connecting; deliver a frame when it
  is open; report an error on it when it is not closed; start the closing handshake
  when it is open; close it when it is not closed (the ready state is \<^verbatim>\<open>CLOSED\<close>
  when the close event fires); fail it when it is not closed (the ready state becomes
  \<^verbatim>\<open>CLOSED\<close>, then the error event and the close event fire). An event on a socket in
  another state, on a socket that does not exist or for a timer that is not pending or
  not due does not happen: the step leaves the state as it is. A handler runs only if
  it is assigned at that moment.
\<close>

datatype event =
    Mount
  | Unmount
  | CallConnect
  | Advance nat
  | TimerFire nat
  | SockOpen nat
  | SockMessage nat payload
  | SockError nat
  | SockClosing nat
  | SockClose nat
  | SockFail nat

definition sock_is :: "hook \<Rightarrow> nat \<Rightarrow> (socket \<Rightarrow> bool) \<Rightarrow> bool" where
  "sock_is s i P = (i < length (sockets s) \<and> P (sockets s ! i))"

fun step :: "env \<Rightarrow> event \<Rightarrow> hook \<Rightarrow> hook" where
  "step E Mount s = (if mounted s then s else mount_effect E s)"
| "step E Unmount s = teardown s"
| "step E CallConnect s = connect E s"
| "step E (Advance d) s = s\<lparr>clock := clock s + d\<rparr>"
| "step E (TimerFire t) s =
     (case map_of (timers s) t of
        None \<Rightarrow> s
      | Some due \<Rightarrow> if due \<le> clock s then timer_callback E (clearTimeout t s) else s)"
| "step E (SockOpen i) s =
     (if sock_is s i (\<lambda>sk. sock_state sk = CONNECTING) then
        (let s1 = set_sock_state i OPEN s
         in if onopen (sockets s1 ! i) then onopen_handler s1 else s1)
      else s)"
| "step E (SockMessage i d) s =
     (if sock_is s i (\<lambda>sk. sock_state sk = OPEN) then
        (if onmessage (sockets s ! i) then onmessage_handler E d s else s)
      else s)"
| "step E (SockError i) s =
     (if sock_is s i (\<lambda>sk. sock_state sk \<noteq> CLOSED) then
        (if onerror (sockets s ! i) then onerror_handler s else s)
      else s)"
| "step E (SockClosing i) s =
     (if sock_is s i (\<lambda>sk. sock_state sk = OPEN) then set_sock_state i CLOSING s else s)"
| "step E (SockClose i) s =
     (if sock_is s i (\<lambda>sk. sock_state sk \<noteq> CLOSED) then
        (let s1 = set_sock_state i CLOSED s
         in if onclose (sockets s1 ! i) then onclose_handler s1 else s1)
      else s)"
| "step E (SockFail i) s =
     (if sock_is s i (\<lambda>sk. sock_state sk \<noteq> CLOSED) then
        (let s1 = set_sock_state i CLOSED s;
             s2 = (if onerror (sockets s1 ! i) then onerror_handler s1 else s1)
         in if onclose (sockets s2 ! i) then onclose_handler s2 else s2)
      else s)"

text \<open>A sequence of events, from the left.\<close>

definition run :: "env \<Rightarrow> event list \<Rightarrow> hook \<Rightarrow> hook" where
  "run E es s = foldl (\<lambda>s e. step E e s) s es"

subsection \<open>Measures and invariants of the hook\<close>

text \<open>The number of sockets that are open or connecting.\<close>

definition live_count :: "hook \<Rightarrow> nat" where
  "live_count s = length (filter live (sockets s))"

text \<open>Every open or connecting socket is the one \<^verbatim>\<open>wsRef.current\<close> refers to.\<close>

definition inv_live :: "hook \<Rightarrow> bool" where
  "inv_live s = (\<forall>i < length (sockets s). live (sockets s ! i) \<longrightarrow> wsRef s = Some i)"

text \<open>The pending timers are exactly the one \<^verbatim>\<open>reconnectTimerRef.current\<close> names, if any.\<close>

definition inv_timer :: "hook \<Rightarrow> bool" where
  "inv_timer s =
     (map fst (timers s) = (case reconnectTimerRef s of None \<Rightarrow> [] | Some t \<Rightarrow> [t]))"

text \<open>A socket on which at least one of the hook's handlers is still assigned.\<close>

definition attached :: "socket \<Rightarrow> bool" where
  "attached sk = (onopen sk \<or> onmessage sk \<or> onerror sk \<or> onclose sk)"

text \<open>
  The invariant of the hook under the events that React and the browser produce: the
  reference names an existing socket; the pending timers are the one the timer
  reference names; a socket that still has a handler and is not closed is the current
  one; while a timer is pending the current socket, if any, is closed; and while the
  effect is not mounted there is no current socket and no pending timer.
\<close>

definition inv_hook :: "hook \<Rightarrow> bool" where
  "inv_hook s =
     ((\<forall>i. wsRef s = Some i \<longrightarrow> i < length (sockets s)) \<and>
      inv_timer s \<and>
      (\<forall>i < length (sockets s).
         attached (sockets s ! i) \<and> sock_state (sockets s ! i) \<noteq> CLOSED \<longrightarrow> wsRef s = Some i) \<and>
      (reconnectTimerRef s \<noteq> None \<longrightarrow>
         (\<forall>i. wsRef s = Some i \<longrightarrow> sock_state (sockets s ! i) = CLOSED)) \<and>
      (\<not> mounted s \<longrightarrow> wsRef s = None \<and> reconnectTimerRef s = None))"

text \<open>
  A hook that has been torn down: not started, no pending timer, and every socket
  either closed or without handlers.
\<close>

definition quiet :: "hook \<Rightarrow> bool" where
  "quiet s =
     (\<not> shouldConnectRef s \<and> timers s = [] \<and>
      (\<forall>i < length (sockets s).
         \<not> attached (sockets s ! i) \<or> sock_state (sockets s ! i) = CLOSED))"

text \<open>
  The environment of \<^verbatim>\<open>App\<close>, which passes its constant \<^verbatim>\<open>WS_URL\<close> to the hook,
  in a browser where the constructor succeeds and in one where it throws; the parser
  of these two accepts nothing.
\<close>

definition APP_WS_URL :: string where
  "APP_WS_URL = ''ws://localhost:8000/ws/live-analytics''"

definition good_env :: env where
  "good_env =
     \<lparr>urlOverride = JStr APP_WS_URL, env_window = None, ctor_throws = (\<lambda>u. False),
      json_parse = (\<lambda>t. None)\<rparr>"

definition failing_env :: env where
  "failing_env =
     \<lparr>urlOverride = JStr APP_WS_URL, env_window = None, ctor_throws = (\<lambda>u. True),
      json_parse = (\<lambda>t. None)\<rparr>"

section \<open>Properties of the live metrics store\<close>

lemma update_effect_rejected: "\<not> accepted v \<Longrightarrow> update_effect now v st = Inr st"
  by (simp add: update_effect_def)

lemma update_effect_accepted:
  assumes "accepted v" and "update_effect now v st = Inr st'"
  shows "\<exists>z h sp.
           fixed_or_held (get_prop v ''z_score'') 2 (z_score (analytics st)) = Inr z \<and>
           fixed_or_held (get_prop v ''hedge_ratio'') 4 (hedge_ratio (analytics st)) = Inr h \<and>
           fixed_or_held (get_prop v ''latest_spread'') 3 (latest_spread (analytics st)) = Inr sp \<and>
           analytics st' =
             \<lparr>z_score = z, hedge_ratio = h, latest_spread = sp,
              symbol_pair = js_or (get_prop v ''symbol_pair'') (symbol_pair (analytics st)),
              pie_summary = js_or (get_prop v ''pie_summary'') (pie_summary (analytics st))\<rparr> \<and>
           prevAnalytics st' = analytics st \<and>
           history st' = updateHistory (prevAnalytics st) now (analytics st') (history st)"
  using assms by (auto simp: update_effect_def Let_def split: sum.splits)

lemma fixed_or_held_absent: "fixed_or_held JUndefined d held = Inr held"
  by (simp add: fixed_or_held_def)

lemma js_or_absent: "js_or JUndefined b = b"
  by (simp add: js_or_def)

lemma run_updates_filter:
  "run_updates ms st = run_updates (filter (\<lambda>m. accepted (snd m)) ms) st"
proof (induction ms arbitrary: st)
  case Nil
  show ?case by simp
next
  case (Cons m ms)
  obtain now v where m: "m = (now, v)" by (cases m)
  show ?case
  proof (cases "accepted v")
    case True
    then show ?thesis using Cons.IH by (simp add: m split: sum.splits)
  next
    case False
    then show ?thesis using Cons.IH by (simp add: m update_effect_rejected)
  qed
qed

text \<open>Evaluation of \<^verbatim>\<open>toFixed\<close> and of the parsers on the values used below.\<close>

lemma string_of_nat_digit: "n < 10 \<Longrightarrow> string_of_nat n = [digit_char n]"
  by (simp add: string_of_nat.simps)

lemma string_of_nat_step:
  "\<not> n < 10 \<Longrightarrow> string_of_nat n = string_of_nat (n div 10) @ [digit_char (n mod 10)]"
  by (subst string_of_nat.simps) simp

lemma replicate_numeral: "replicate (numeral k) x = x # replicate (pred_numeral k) x"
  by (simp add: numeral_eq_Suc)

lemma num_to_fixed_eval:
  "\<lfloor>\<bar>x\<bar> * 10 ^ d + 1 / 2\<rfloor> = int n \<Longrightarrow>
   num_to_fixed d x =
     (if x < 0 then ''-'' else '''') @ string_of_nat (n div 10 ^ d) @
     (if d = 0 then '''' else ''.'' @ pad_zeros d (string_of_nat (n mod 10 ^ d)))"
  by (simp add: num_to_fixed_def)

lemmas fixed_eval = pad_zeros_def string_of_nat_digit string_of_nat_step digit_char_def
  floor_unique replicate_numeral

lemmas parse_eval = parseFloat_def to_number_def parse_decimal_def Let_def is_digit_def
  digit_val_def digits_val_def digit_table_def

lemma fixed_2_1: "num_to_fixed 2 1 = ''1.00''"
  by (simp add: num_to_fixed_eval [where n = 100] fixed_eval)

lemma fixed_4_1: "num_to_fixed 4 1 = ''1.0000''"
  by (simp add: num_to_fixed_eval [where n = 10000] fixed_eval)

lemma fixed_4_2: "num_to_fixed 4 2 = ''2.0000''"
  by (simp add: num_to_fixed_eval [where n = 20000] fixed_eval)

lemma fixed_4_3: "num_to_fixed 4 3 = ''3.0000''"
  by (simp add: num_to_fixed_eval [where n = 30000] fixed_eval)

lemma fixed_4_4: "num_to_fixed 4 4 = ''4.0000''"
  by (simp add: num_to_fixed_eval [where n = 40000] fixed_eval)

lemma fixed_3_10: "num_to_fixed 3 10 = ''10.000''"
  by (simp add: num_to_fixed_eval [where n = 10000] fixed_eval)

lemma fixed_3_12: "num_to_fixed 3 12 = ''12.000''"
  by (simp add: num_to_fixed_eval [where n = 12000] fixed_eval)

lemma fixed_3_9: "num_to_fixed 3 9 = ''9.000''"
  by (simp add: num_to_fixed_eval [where n = 9000] fixed_eval)

lemma parseFloat_sentinel: "parseFloat ''---'' = NaN"
  by (simp add: parse_eval)

lemma parseFloat_10: "parseFloat ''10.000'' = Fin 10"
  by (simp add: parse_eval)

lemma parseFloat_12: "parseFloat ''12.000'' = Fin 12"
  by (simp add: parse_eval)

lemma to_number_10: "to_number ''10.000'' = Fin 10"
  by (simp add: parse_eval)

lemma to_number_12: "to_number ''12.000'' = Fin 12"
  by (simp add: parse_eval)

lemma to_number_9: "to_number ''9.000'' = Fin 9"
  by (simp add: parse_eval)

lemmas scenario_values =
  fixed_2_1 fixed_4_1 fixed_4_2 fixed_4_3 fixed_4_4 fixed_3_10 fixed_3_12 fixed_3_9
  parseFloat_sentinel parseFloat_10 parseFloat_12 to_number_10 to_number_12 to_number_9

lemma update_effect_z_only:
  "update_effect now (JObj [(''z_score'', JNum 1)]) st =
     Inr \<lparr>analytics = (analytics st)\<lparr>z_score := ''1.00''\<rparr>, prevAnalytics = analytics st,
          history = updateHistory (prevAnalytics st) now ((analytics st)\<lparr>z_score := ''1.00''\<rparr>)
                      (history st)\<rparr>"
proof -
  have eq: "\<lparr>z_score = ''1.00'', hedge_ratio = hedge_ratio (analytics st),
         latest_spread = latest_spread (analytics st), symbol_pair = symbol_pair (analytics st),
         pie_summary = pie_summary (analytics st)\<rparr> = (analytics st)\<lparr>z_score := ''1.00''\<rparr>"
    by (cases "analytics st") simp
  show ?thesis
    unfolding update_effect_def Let_def eq
    by (simp add: accepted_def fixed_or_held_def js_or_def fixed_2_1 eq)
qed

text \<open>
  C3. The snapshot is replaced only by a delivered value that passes the guard (a truthy
  value with a defined \<^verbatim>\<open>z_score\<close>): a value that does not pass leaves the snapshot,
  the previous snapshot and the history as they are, in one run and therefore anywhere
  in a sequence of runs. When a value passes and the effect completes, every field that
  is absent from it keeps the value it had in the snapshot before, and the previous
  snapshot becomes that snapshot.
\<close>

theorem snapshot_hold:
  "(\<not> accepted v \<longrightarrow> update_effect now v st = Inr st) \<and>
   (update_effect now v st = Inr st' \<and> analytics st' \<noteq> analytics st \<longrightarrow> accepted v) \<and>
   (accepted v \<and> update_effect now v st = Inr st' \<longrightarrow>
      prevAnalytics st' = analytics st \<and>
      (get_prop v ''hedge_ratio'' = JUndefined \<longrightarrow>
         hedge_ratio (analytics st') = hedge_ratio (analytics st)) \<and>
      (get_prop v ''latest_spread'' = JUndefined \<longrightarrow>
         latest_spread (analytics st') = latest_spread (analytics st)) \<and>
      (get_prop v ''symbol_pair'' = JUndefined \<longrightarrow>
         symbol_pair (analytics st') = symbol_pair (analytics st)) \<and>
      (get_prop v ''pie_summary'' = JUndefined \<longrightarrow>
         pie_summary (analytics st') = pie_summary (analytics st))) \<and>
   run_updates ms st = run_updates (filter (\<lambda>m. accepted (snd m)) ms) st"
proof (intro conjI impI)
  assume "\<not> accepted v"
  then show "update_effect now v st = Inr st" by (rule update_effect_rejected)
next
  assume a: "update_effect now v st = Inr st' \<and> analytics st' \<noteq> analytics st"
  show "accepted v"
  proof (rule ccontr)
    assume "\<not> accepted v"
    then have "update_effect now v st = Inr st" by (rule update_effect_rejected)
    with a show False by auto
  qed
next
  assume a: "accepted v \<and> update_effect now v st = Inr st'"
  then obtain z h sp where
    f: "fixed_or_held (get_prop v ''hedge_ratio'') 4 (hedge_ratio (analytics st)) = Inr h"
       "fixed_or_held (get_prop v ''latest_spread'') 3 (latest_spread (analytics st)) = Inr sp"
    and n: "analytics st' =
             \<lparr>z_score = z, hedge_ratio = h, latest_spread = sp,
              symbol_pair = js_or (get_prop v ''symbol_pair'') (symbol_pair (analytics st)),
              pie_summary = js_or (get_prop v ''pie_summary'') (pie_summary (analytics st))\<rparr>"
    and p: "prevAnalytics st' = analytics st"
    using update_effect_accepted [of v now st st'] by blast
  show "prevAnalytics st' = analytics st" by (rule p)
  { assume "get_prop v ''hedge_ratio'' = JUndefined"
    with f n show "hedge_ratio (analytics st') = hedge_ratio (analytics st)"
      by (simp add: fixed_or_held_absent) }
  { assume "get_prop v ''latest_spread'' = JUndefined"
    with f n show "latest_spread (analytics st') = latest_spread (analytics st)"
      by (simp add: fixed_or_held_absent) }
  { assume "get_prop v ''symbol_pair'' = JUndefined"
    with n show "symbol_pair (analytics st') = symbol_pair (analytics st)"
      by (simp add: js_or_absent) }
  { assume "get_prop v ''pie_summary'' = JUndefined"
    with n show "pie_summary (analytics st') = pie_summary (analytics st)"
      by (simp add: js_or_absent) }
next
  show "run_updates ms st = run_updates (filter (\<lambda>m. accepted (snd m)) ms) st"
    by (rule run_updates_filter)
qed

theorem snapshot_hold_witness:
  "\<not> accepted (JObj [(''symbol_pair'', JStr ''BTCUSDT/ETHUSDT'')]) \<and>
   update_effect ''12:00:00'' (JObj [(''symbol_pair'', JStr ''BTCUSDT/ETHUSDT'')]) initial_app
     = Inr initial_app \<and>
   accepted (JObj [(''z_score'', JNum 1)]) \<and>
   update_effect ''12:00:01'' (JObj [(''z_score'', JNum 1)]) initial_app =
     Inr \<lparr>analytics = initial_analytics\<lparr>z_score := ''1.00''\<rparr>,
          prevAnalytics = initial_analytics,
          history = updateHistory initial_analytics ''12:00:01''
                      (initial_analytics\<lparr>z_score := ''1.00''\<rparr>) initial_history\<rparr> \<and>
   get_prop (JObj [(''z_score'', JNum 1)]) ''hedge_ratio'' = JUndefined \<and>
   hedge_ratio (initial_analytics\<lparr>z_score := ''1.00''\<rparr>) = hedge_ratio initial_analytics \<and>
   run_updates [(''12:00:00'', JObj [(''symbol_pair'', JStr ''BTCUSDT/ETHUSDT'')])] initial_app
     = Inr initial_app"
proof -
  let ?u = "JObj [(''symbol_pair'', JStr ''BTCUSDT/ETHUSDT'')]"
  let ?v = "JObj [(''z_score'', JNum 1)]"
  let ?st' = "\<lparr>analytics = initial_analytics\<lparr>z_score := ''1.00''\<rparr>,
          prevAnalytics = initial_analytics,
          history = updateHistory initial_analytics ''12:00:01''
                      (initial_analytics\<lparr>z_score := ''1.00''\<rparr>) initial_history\<rparr>"
  have nu: "\<not> accepted ?u" by (simp add: accepted_def)
  have av: "accepted ?v" by (simp add: accepted_def)
  have ev: "update_effect ''12:00:01'' ?v initial_app = Inr ?st'"
    by (simp add: update_effect_z_only initial_app_def app_of_capacity_def initial_history_def)
  have ab: "get_prop ?v ''hedge_ratio'' = JUndefined" by simp
  from snapshot_hold [of ?u "''12:00:00''" initial_app initial_app
                         "[(''12:00:00'', ?u)]"] nu
  have 1: "update_effect ''12:00:00'' ?u initial_app = Inr initial_app"
    and 2: "run_updates [(''12:00:00'', ?u)] initial_app = Inr initial_app"
    by simp_all
  from snapshot_hold [of ?v "''12:00:01''" initial_app ?st' "[]"] av ev ab
  have 3: "hedge_ratio (analytics ?st') = hedge_ratio (analytics initial_app)"
    by blast
  from nu 1 av ev ab 3 2 show ?thesis
    by (simp add: initial_app_def app_of_capacity_def)
qed

lemma length_shift: "xs \<noteq> [] \<Longrightarrow> length (drop (Suc 0) xs @ [x]) = length xs"
  by (cases xs) simp_all

lemma nth_shift: "Suc i < length xs \<Longrightarrow> (drop (Suc 0) xs @ [x]) ! i = xs ! Suc i"
  by (cases xs) (simp_all add: nth_append)

lemma last_shift: "xs \<noteq> [] \<Longrightarrow> (drop (Suc 0) xs @ [x]) ! (length xs - Suc 0) = x"
  by (cases xs) (simp_all add: nth_append)

lemma update_effect_lengths:
  assumes "0 < n"
    and "length (hedgeRatio (history st)) = n"
    and "length (spreadVelocity (history st)) = n"
    and "length (timestamps (history st)) = n"
    and "update_effect now v st = Inr st'"
  shows "length (hedgeRatio (history st')) = n \<and>
         length (spreadVelocity (history st')) = n \<and>
         length (timestamps (history st')) = n"
proof (cases "accepted v")
  case False
  with assms(5) have "st' = st" by (simp add: update_effect_rejected)
  with assms show ?thesis by simp
next
  case True
  from update_effect_accepted [OF True assms(5)]
  have h: "history st' = updateHistory (prevAnalytics st) now (analytics st') (history st)"
    by blast
  from assms(1-4) have ne: "hedgeRatio (history st) \<noteq> []" "spreadVelocity (history st) \<noteq> []"
    "timestamps (history st) \<noteq> []" by auto
  show ?thesis
    using assms(1-4) ne by (simp add: h updateHistory_def Let_def length_shift)
qed

lemma run_updates_lengths:
  assumes "0 < n"
  shows "length (hedgeRatio (history st)) = n \<Longrightarrow>
         length (spreadVelocity (history st)) = n \<Longrightarrow>
         length (timestamps (history st)) = n \<Longrightarrow>
         run_updates ms st = Inr st' \<Longrightarrow>
         length (hedgeRatio (history st')) = n \<and>
         length (spreadVelocity (history st')) = n \<and>
         length (timestamps (history st')) = n"
proof (induction ms arbitrary: st)
  case Nil
  then show ?case by simp
next
  case (Cons m ms)
  obtain now v where m: "m = (now, v)" by (cases m)
  from Cons.prems(4) obtain st1 where
    1: "update_effect now v st = Inr st1" and 2: "run_updates ms st1 = Inr st'"
    by (auto simp: m split: sum.splits)
  from update_effect_lengths [OF assms Cons.prems(1-3) 1]
  show ?case using Cons.IH [OF _ _ _ 2] by blast
qed

lemma app_of_capacity_lengths:
  "length (hedgeRatio (history (app_of_capacity n))) = n \<and>
   length (spreadVelocity (history (app_of_capacity n))) = n \<and>
   length (timestamps (history (app_of_capacity n))) = n"
  by (simp add: app_of_capacity_def history_of_capacity_def)

text \<open>
  C4. From the initial history of capacity \<open>n > 0\<close> (the source's is 10), after any
  sequence of effect runs that reaches \<open>st\<close> the three series have length \<open>n\<close>, and
  one more accepted run keeps the three lengths at \<open>n\<close>, moves every retained entry of
  each series one place towards the head (the same shift in all three, so entries at
  the same index still belong together, and the former head is dropped) and puts the
  new hedge ratio, velocity and time stamp in the last place of their series.
\<close>

theorem rolling_history_fifo:
  assumes "0 < n"
    and "run_updates ms (app_of_capacity n) = Inr st"
    and "accepted v"
    and "update_effect now v st = Inr st'"
  shows "length (hedgeRatio (history initial_app)) = 10 \<and>
         length (hedgeRatio (history st)) = n \<and>
         length (spreadVelocity (history st)) = n \<and>
         length (timestamps (history st)) = n \<and>
         length (hedgeRatio (history st')) = n \<and>
         length (spreadVelocity (history st')) = n \<and>
         length (timestamps (history st')) = n \<and>
         (\<forall>i. Suc i < n \<longrightarrow>
            hedgeRatio (history st') ! i = hedgeRatio (history st) ! Suc i \<and>
            spreadVelocity (history st') ! i = spreadVelocity (history st) ! Suc i \<and>
            timestamps (history st') ! i = timestamps (history st) ! Suc i) \<and>
         hedgeRatio (history st') ! (n - 1) = JStr (hedge_ratio (analytics st')) \<and>
         spreadVelocity (history st') ! (n - 1) =
           js_minus (to_number (latest_spread (analytics st')))
             (if truthy_num (parseFloat (latest_spread (prevAnalytics st)))
              then parseFloat (latest_spread (prevAnalytics st))
              else to_number (latest_spread (analytics st'))) \<and>
         timestamps (history st') ! (n - 1) = now"
proof -
  have a: "length (hedgeRatio (history (app_of_capacity n))) = n"
    "length (spreadVelocity (history (app_of_capacity n))) = n"
    "length (timestamps (history (app_of_capacity n))) = n"
    using app_of_capacity_lengths [of n] by simp_all
  from run_updates_lengths [OF assms(1) a assms(2)]
  have l: "length (hedgeRatio (history st)) = n" "length (spreadVelocity (history st)) = n"
    "length (timestamps (history st)) = n" by simp_all
  from update_effect_lengths [OF assms(1) l assms(4)]
  have l': "length (hedgeRatio (history st')) = n" "length (spreadVelocity (history st')) = n"
    "length (timestamps (history st')) = n" by simp_all
  from update_effect_accepted [OF assms(3,4)]
  have h: "history st' = updateHistory (prevAnalytics st) now (analytics st') (history st)"
    by blast
  from assms(1) l have ne: "hedgeRatio (history st) \<noteq> []" "spreadVelocity (history st) \<noteq> []"
    "timestamps (history st) \<noteq> []" by auto
  have sh: "\<forall>i. Suc i < n \<longrightarrow>
            hedgeRatio (history st') ! i = hedgeRatio (history st) ! Suc i \<and>
            spreadVelocity (history st') ! i = spreadVelocity (history st) ! Suc i \<and>
            timestamps (history st') ! i = timestamps (history st) ! Suc i"
    using l by (simp add: h updateHistory_def Let_def nth_shift)
  have t1: "hedgeRatio (history st') ! (n - 1) = JStr (hedge_ratio (analytics st'))"
    using last_shift [OF ne(1)] l(1) by (simp add: h updateHistory_def Let_def)
  have t2: "spreadVelocity (history st') ! (n - 1) =
           js_minus (to_number (latest_spread (analytics st')))
             (if truthy_num (parseFloat (latest_spread (prevAnalytics st)))
              then parseFloat (latest_spread (prevAnalytics st))
              else to_number (latest_spread (analytics st')))"
    using last_shift [OF ne(2)] l(2) by (simp add: h updateHistory_def Let_def)
  have t3: "timestamps (history st') ! (n - 1) = now"
    using last_shift [OF ne(3)] l(3) by (simp add: h updateHistory_def Let_def)
  have d: "length (hedgeRatio (history initial_app)) = 10"
    by (simp add: initial_app_def app_of_capacity_lengths)
  from d l l' sh t1 t2 t3 show ?thesis by blast
qed

theorem rolling_history_fifo_witness:
  "(0::nat) < 3 \<and>
   run_updates [] (app_of_capacity 3) = Inr (app_of_capacity 3) \<and>
   accepted (JObj [(''z_score'', JNum 1)]) \<and>
   (\<exists>st'. update_effect ''12:00:01'' (JObj [(''z_score'', JNum 1)]) (app_of_capacity 3) = Inr st' \<and>
      length (hedgeRatio (history st')) = 3 \<and>
      length (spreadVelocity (history st')) = 3 \<and>
      length (timestamps (history st')) = 3 \<and>
      hedgeRatio (history st') ! 0 = JNull \<and>
      hedgeRatio (history st') ! 2 = JStr ''---'' \<and>
      timestamps (history st') ! 2 = ''12:00:01'')"
proof -
  let ?v = "JObj [(''z_score'', JNum 1)]"
  let ?st = "app_of_capacity 3"
  let ?st' = "\<lparr>analytics = (analytics ?st)\<lparr>z_score := ''1.00''\<rparr>, prevAnalytics = analytics ?st,
          history = updateHistory (prevAnalytics ?st) ''12:00:01''
                      ((analytics ?st)\<lparr>z_score := ''1.00''\<rparr>) (history ?st)\<rparr>"
  have p: "(0::nat) < 3" by simp
  have r: "run_updates [] ?st = Inr ?st" by simp
  have av: "accepted ?v" by (simp add: accepted_def)
  have ev: "update_effect ''12:00:01'' ?v ?st = Inr ?st'" by (rule update_effect_z_only)
  have h0: "hedgeRatio (history ?st) ! Suc 0 = JNull"
    by (simp add: app_of_capacity_def history_of_capacity_def)
  have hr: "hedge_ratio (analytics ?st') = ''---''"
    by (simp add: app_of_capacity_def initial_analytics_def)
  from rolling_history_fifo [OF p r av ev]
  have "length (hedgeRatio (history ?st')) = 3 \<and>
      length (spreadVelocity (history ?st')) = 3 \<and>
      length (timestamps (history ?st')) = 3 \<and>
      hedgeRatio (history ?st') ! 0 = hedgeRatio (history ?st) ! Suc 0 \<and>
      hedgeRatio (history ?st') ! (3 - 1) = JStr (hedge_ratio (analytics ?st')) \<and>
      timestamps (history ?st') ! (3 - 1) = ''12:00:01''"
    by simp
  then have "length (hedgeRatio (history ?st')) = 3 \<and>
      length (spreadVelocity (history ?st')) = 3 \<and>
      length (timestamps (history ?st')) = 3 \<and>
      hedgeRatio (history ?st') ! 0 = JNull \<and>
      hedgeRatio (history ?st') ! 2 = JStr ''---'' \<and>
      timestamps (history ?st') ! 2 = ''12:00:01''"
    unfolding h0 hr by simp
  with p r av ev show ?thesis by blast
qed

text \<open>
  C10. The guard of the update effect asks only that \<^verbatim>\<open>z_score\<close> is not
  \<^verbatim>\<open>undefined\<close>. A delivered value that passes it and whose \<^verbatim>\<open>z_score\<close> is not a
  number, or whose \<^verbatim>\<open>hedge_ratio\<close> or \<^verbatim>\<open>latest_spread\<close> is present and not a number,
  makes the effect throw a TypeError from \<^verbatim>\<open>toFixed\<close>: the value is neither ignored nor
  merged.
\<close>

theorem non_number_field_throws:
  assumes "accepted v"
    and "\<not> is_number (get_prop v ''z_score'') \<or>
         (get_prop v ''hedge_ratio'' \<noteq> JUndefined \<and> \<not> is_number (get_prop v ''hedge_ratio'')) \<or>
         (get_prop v ''latest_spread'' \<noteq> JUndefined \<and> \<not> is_number (get_prop v ''latest_spread''))"
  shows "update_effect now v st = Inl TypeError"
proof -
  have nz: "get_prop v ''z_score'' \<noteq> JUndefined" using assms(1) by (simp add: accepted_def)
  have t: "\<And>x d. \<not> is_number x \<Longrightarrow> toFixed x d = Inl TypeError"
    by (case_tac x) simp_all
  have e: "\<And>x d held e. fixed_or_held x d held = Inl e \<Longrightarrow> e = TypeError"
    by (case_tac x) (simp_all add: fixed_or_held_def)
  have r: "\<And>x d held. fixed_or_held x d held = Inl TypeError \<or> (\<exists>y. fixed_or_held x d held = Inr y)"
    by (case_tac "fixed_or_held x d held") (auto dest: e)
  from assms(2) consider
      (z) "\<not> is_number (get_prop v ''z_score'')"
    | (h) "get_prop v ''hedge_ratio'' \<noteq> JUndefined" "\<not> is_number (get_prop v ''hedge_ratio'')"
    | (s) "get_prop v ''latest_spread'' \<noteq> JUndefined" "\<not> is_number (get_prop v ''latest_spread'')"
    by blast
  then show ?thesis
  proof cases
    case z
    then show ?thesis using assms(1) nz by (simp add: update_effect_def fixed_or_held_def t)
  next
    case h
    then have "fixed_or_held (get_prop v ''hedge_ratio'') 4 (hedge_ratio (analytics st)) = Inl TypeError"
      by (simp add: fixed_or_held_def t)
    then show ?thesis
      using assms(1) r [of "get_prop v ''z_score''" 2 "z_score (analytics st)"]
      by (auto simp: update_effect_def)
  next
    case s
    then have "fixed_or_held (get_prop v ''latest_spread'') 3 (latest_spread (analytics st)) = Inl TypeError"
      by (simp add: fixed_or_held_def t)
    then show ?thesis
      using assms(1) r [of "get_prop v ''z_score''" 2 "z_score (analytics st)"]
        r [of "get_prop v ''hedge_ratio''" 4 "hedge_ratio (analytics st)"]
      by (auto simp: update_effect_def)
  qed
qed

theorem non_number_field_throws_witness:
  "accepted (JObj [(''z_score'', JNull)]) \<and>
   \<not> is_number (get_prop (JObj [(''z_score'', JNull)]) ''z_score'') \<and>
   update_effect ''12:00:00'' (JObj [(''z_score'', JNull)]) initial_app = Inl TypeError \<and>
   accepted (JObj [(''z_score'', JNum 1), (''latest_spread'', JStr ''9.5'')]) \<and>
   update_effect ''12:00:00'' (JObj [(''z_score'', JNum 1), (''latest_spread'', JStr ''9.5'')])
     initial_app = Inl TypeError"
proof -
  let ?v = "JObj [(''z_score'', JNull)]"
  let ?w = "JObj [(''z_score'', JNum 1), (''latest_spread'', JStr ''9.5'')]"
  have a: "accepted ?v" by (simp add: accepted_def)
  have n: "\<not> is_number (get_prop ?v ''z_score'')" by simp
  have b: "accepted ?w" by (simp add: accepted_def)
  have m: "get_prop ?w ''latest_spread'' \<noteq> JUndefined \<and> \<not> is_number (get_prop ?w ''latest_spread'')"
    by simp
  from a n non_number_field_throws [of ?v "''12:00:00''" initial_app]
  have 1: "update_effect ''12:00:00'' ?v initial_app = Inl TypeError" by blast
  from b m non_number_field_throws [of ?w "''12:00:00''" initial_app]
  have 2: "update_effect ''12:00:00'' ?w initial_app = Inl TypeError" by blast
  from a n 1 b 2 show ?thesis by blast
qed

lemma update_effect_update_msg:
  "update_effect now (update_msg z h sp) st =
     Inr \<lparr>analytics =
            \<lparr>z_score = num_to_fixed 2 z, hedge_ratio = num_to_fixed 4 h,
             latest_spread = num_to_fixed 3 sp, symbol_pair = symbol_pair (analytics st),
             pie_summary = pie_summary (analytics st)\<rparr>,
          prevAnalytics = analytics st,
          history = updateHistory (prevAnalytics st) now
            \<lparr>z_score = num_to_fixed 2 z, hedge_ratio = num_to_fixed 4 h,
             latest_spread = num_to_fixed 3 sp, symbol_pair = symbol_pair (analytics st),
             pie_summary = pie_summary (analytics st)\<rparr> (history st)\<rparr>"
  by (simp add: update_effect_def update_msg_def accepted_def fixed_or_held_def js_or_def Let_def)

lemma history_of_capacity_3:
  "history_of_capacity 3 =
     \<lparr>hedgeRatio = [JNull, JNull, JNull], spreadVelocity = [Fin 0, Fin 0, Fin 0],
      timestamps = ['''', '''', '''']\<rparr>"
  by (simp add: history_of_capacity_def replicate_numeral)

text \<open>
  C5. The scenario of the claim, run on the code with capacity 3: four updates with
  hedge ratio 1, 2, 3, 4 and spread 10, 12, 9, 9 (and a z-score of 1, which the guard
  needs), received at \<open>t1\<close> ... \<open>t4\<close>. The hedge-ratio series ends as the three
  last values (as the strings \<^verbatim>\<open>toFixed(4)\<close> made of them) and the time stamps as the
  three last receipt times, but the velocity series ends as \<open>[0, -1, -3]\<close>, not
  \<open>[2, -3, 0]\<close>: the subtrahend is the spread of \<^verbatim>\<open>prevAnalytics\<close> as the render
  that runs the effect sees it, which is the snapshot before the current one, so the
  velocity of sample \<open>k\<close> is \<open>spread k - spread (k - 2)\<close>, and 0 for the first two.
\<close>

theorem velocity_scenario:
  "run_updates
     [(''t1'', update_msg 1 1 10), (''t2'', update_msg 1 2 12),
      (''t3'', update_msg 1 3 9), (''t4'', update_msg 1 4 9)] (app_of_capacity 3) =
   Inr \<lparr>analytics =
          \<lparr>z_score = ''1.00'', hedge_ratio = ''4.0000'', latest_spread = ''9.000'',
           symbol_pair = symbol_pair initial_analytics,
           pie_summary = pie_summary initial_analytics\<rparr>,
        prevAnalytics =
          \<lparr>z_score = ''1.00'', hedge_ratio = ''3.0000'', latest_spread = ''9.000'',
           symbol_pair = symbol_pair initial_analytics,
           pie_summary = pie_summary initial_analytics\<rparr>,
        history =
          \<lparr>hedgeRatio = [JStr ''2.0000'', JStr ''3.0000'', JStr ''4.0000''],
           spreadVelocity = [Fin 0, Fin (- 1), Fin (- 3)],
           timestamps = [''t2'', ''t3'', ''t4'']\<rparr>\<rparr>"
  by (simp add: update_effect_update_msg app_of_capacity_def history_of_capacity_3
      updateHistory_def Let_def scenario_values initial_analytics_def)

section \<open>Properties of the hook\<close>

text \<open>The guard of the close in \<^verbatim>\<open>cleanupSocket\<close> repeats the browser's own.\<close>

lemma close_if_live_eq [simp]: "close_if_live i s = sock_close i s"
  by (simp add: close_if_live_def sock_close_def)

text \<open>The fields that each operation leaves alone.\<close>

lemma setReadyState_fields [simp]:
  "liveData (setReadyState r s) = liveData s"
  "shouldConnectRef (setReadyState r s) = shouldConnectRef s"
  "wsRef (setReadyState r s) = wsRef s"
  "reconnectTimerRef (setReadyState r s) = reconnectTimerRef s"
  "connectRef (setReadyState r s) = connectRef s"
  "sockets (setReadyState r s) = sockets s"
  "timers (setReadyState r s) = timers s"
  "clock (setReadyState r s) = clock s"
  "next_timer (setReadyState r s) = next_timer s"
  "ctor_calls (setReadyState r s) = ctor_calls s"
  "mounted (setReadyState r s) = mounted s"
  by (simp_all add: setReadyState_def)

lemma setLiveData_fields [simp]:
  "readyState (setLiveData v s) = readyState s"
  "shouldConnectRef (setLiveData v s) = shouldConnectRef s"
  "wsRef (setLiveData v s) = wsRef s"
  "reconnectTimerRef (setLiveData v s) = reconnectTimerRef s"
  "connectRef (setLiveData v s) = connectRef s"
  "sockets (setLiveData v s) = sockets s"
  "timers (setLiveData v s) = timers s"
  "clock (setLiveData v s) = clock s"
  "next_timer (setLiveData v s) = next_timer s"
  "ctor_calls (setLiveData v s) = ctor_calls s"
  "mounted (setLiveData v s) = mounted s"
  by (simp_all add: setLiveData_def)

lemma set_sock_state_fields [simp]:
  "liveData (set_sock_state i r s) = liveData s"
  "readyState (set_sock_state i r s) = readyState s"
  "shouldConnectRef (set_sock_state i r s) = shouldConnectRef s"
  "wsRef (set_sock_state i r s) = wsRef s"
  "reconnectTimerRef (set_sock_state i r s) = reconnectTimerRef s"
  "connectRef (set_sock_state i r s) = connectRef s"
  "timers (set_sock_state i r s) = timers s"
  "clock (set_sock_state i r s) = clock s"
  "next_timer (set_sock_state i r s) = next_timer s"
  "emitted (set_sock_state i r s) = emitted s"
  "ctor_calls (set_sock_state i r s) = ctor_calls s"
  "mounted (set_sock_state i r s) = mounted s"
  by (simp_all add: set_sock_state_def)

lemma sock_close_fields [simp]:
  "liveData (sock_close i s) = liveData s"
  "readyState (sock_close i s) = readyState s"
  "shouldConnectRef (sock_close i s) = shouldConnectRef s"
  "wsRef (sock_close i s) = wsRef s"
  "reconnectTimerRef (sock_close i s) = reconnectTimerRef s"
  "connectRef (sock_close i s) = connectRef s"
  "timers (sock_close i s) = timers s"
  "clock (sock_close i s) = clock s"
  "next_timer (sock_close i s) = next_timer s"
  "emitted (sock_close i s) = emitted s"
  "ctor_calls (sock_close i s) = ctor_calls s"
  "mounted (sock_close i s) = mounted s"
  by (simp_all add: sock_close_def set_sock_state_def)

lemma detach_fields [simp]:
  "liveData (detach i s) = liveData s"
  "readyState (detach i s) = readyState s"
  "shouldConnectRef (detach i s) = shouldConnectRef s"
  "wsRef (detach i s) = wsRef s"
  "reconnectTimerRef (detach i s) = reconnectTimerRef s"
  "connectRef (detach i s) = connectRef s"
  "timers (detach i s) = timers s"
  "clock (detach i s) = clock s"
  "next_timer (detach i s) = next_timer s"
  "emitted (detach i s) = emitted s"
  "ctor_calls (detach i s) = ctor_calls s"
  "mounted (detach i s) = mounted s"
  by (simp_all add: detach_def)

lemma clearTimeout_fields [simp]:
  "liveData (clearTimeout t s) = liveData s"
  "readyState (clearTimeout t s) = readyState s"
  "shouldConnectRef (clearTimeout t s) = shouldConnectRef s"
  "wsRef (clearTimeout t s) = wsRef s"
  "reconnectTimerRef (clearTimeout t s) = reconnectTimerRef s"
  "connectRef (clearTimeout t s) = connectRef s"
  "sockets (clearTimeout t s) = sockets s"
  "clock (clearTimeout t s) = clock s"
  "next_timer (clearTimeout t s) = next_timer s"
  "emitted (clearTimeout t s) = emitted s"
  "ctor_calls (clearTimeout t s) = ctor_calls s"
  "mounted (clearTimeout t s) = mounted s"
  by (simp_all add: clearTimeout_def)

lemma scheduleReconnect_fields [simp]:
  "liveData (scheduleReconnect s) = liveData s"
  "readyState (scheduleReconnect s) = readyState s"
  "shouldConnectRef (scheduleReconnect s) = shouldConnectRef s"
  "wsRef (scheduleReconnect s) = wsRef s"
  "connectRef (scheduleReconnect s) = connectRef s"
  "sockets (scheduleReconnect s) = sockets s"
  "clock (scheduleReconnect s) = clock s"
  "emitted (scheduleReconnect s) = emitted s"
  "ctor_calls (scheduleReconnect s) = ctor_calls s"
  "mounted (scheduleReconnect s) = mounted s"
  by (simp_all add: scheduleReconnect_def)

lemma filter_at_most_one:
  "(\<forall>i<length xs. \<forall>j<length xs. P (xs ! i) \<and> P (xs ! j) \<longrightarrow> i = j) \<Longrightarrow>
   length (filter P xs) \<le> 1"
proof (induction xs)
  case Nil
  then show ?case by simp
next
  case (Cons x xs)
  have tl: "\<forall>i<length xs. \<forall>j<length xs. P (xs ! i) \<and> P (xs ! j) \<longrightarrow> i = j"
  proof (intro allI impI)
    fix i j assume "i < length xs" "j < length xs" "P (xs ! i) \<and> P (xs ! j)"
    with Cons.prems have "Suc i = Suc j"
      by (metis length_Cons nth_Cons_Suc Suc_less_eq)
    then show "i = j" by simp
  qed
  show ?case
  proof (cases "P x")
    case False
    with Cons.IH [OF tl] show ?thesis by simp
  next
    case True
    have "\<forall>k<length xs. \<not> P (xs ! k)"
    proof (intro allI impI)
      fix k assume k: "k < length xs"
      show "\<not> P (xs ! k)"
      proof
        assume "P (xs ! k)"
        with True k Cons.prems have "0 = Suc k"
          by (metis length_Cons nth_Cons_0 nth_Cons_Suc Suc_less_eq zero_less_Suc)
        then show False by simp
      qed
    qed
    then have "filter P xs = []"
      by (auto simp: filter_empty_conv in_set_conv_nth)
    with True show ?thesis by simp
  qed
qed

lemma nth_list_update_if:
  "j < length xs \<Longrightarrow> (xs[i := x]) ! j = (if i = j then x else xs ! j)"
  by (cases "i = j") simp_all

lemma inv_live_count: "inv_live s \<Longrightarrow> live_count s \<le> 1"
proof -
  assume a: "inv_live s"
  have "\<forall>i<length (sockets s). \<forall>j<length (sockets s).
          live (sockets s ! i) \<and> live (sockets s ! j) \<longrightarrow> i = j"
  proof (intro allI impI)
    fix i j
    assume b: "i < length (sockets s)" "j < length (sockets s)"
      "live (sockets s ! i) \<and> live (sockets s ! j)"
    from a b have "wsRef s = Some i" unfolding inv_live_def by blast
    moreover from a b have "wsRef s = Some j" unfolding inv_live_def by blast
    ultimately show "i = j" by simp
  qed
  then show ?thesis unfolding live_count_def by (rule filter_at_most_one)
qed

text \<open>What the operations do to the sockets and to the reference.\<close>

lemma inv_live_emit [simp]:
  "inv_live (setReadyState r s) = inv_live s" "inv_live (setLiveData v s) = inv_live s"
  by (simp_all add: inv_live_def setReadyState_def setLiveData_def)

lemma inv_live_scheduleReconnect [simp]: "inv_live (scheduleReconnect s) = inv_live s"
  by (simp add: inv_live_def scheduleReconnect_def)

lemma inv_live_set_down:
  "inv_live s \<Longrightarrow> r \<noteq> OPEN \<Longrightarrow> r \<noteq> CONNECTING \<Longrightarrow> inv_live (set_sock_state i r s)"
  by (auto simp: inv_live_def set_sock_state_def live_def nth_list_update_if split: if_splits)

lemma inv_live_set_open:
  "inv_live s \<Longrightarrow> i < length (sockets s) \<Longrightarrow> live (sockets s ! i) \<Longrightarrow>
   inv_live (set_sock_state i OPEN s)"
  by (auto simp: inv_live_def set_sock_state_def live_def nth_list_update_if split: if_splits)

lemma inv_live_sock_close: "inv_live s \<Longrightarrow> inv_live (sock_close i s)"
  by (simp add: sock_close_def inv_live_set_down)

lemma inv_live_connect: "inv_live s \<Longrightarrow> inv_live (connect E s)"
  by (auto simp: connect_def Let_def inv_live_def current_live_def setReadyState_def
      scheduleReconnect_def new_socket_def nth_append live_def split: option.splits)

lemma inv_live_cleanupSocket: "inv_live s \<Longrightarrow> inv_live (cleanupSocket s)"
  by (auto simp: cleanupSocket_def Let_def inv_live_def clearTimeout_def sock_close_def
      detach_def set_sock_state_def live_def nth_list_update_if split: option.splits if_splits)

lemma inv_live_onerror: "inv_live s \<Longrightarrow> inv_live (onerror_handler s)"
  by (simp add: onerror_handler_def Let_def inv_live_sock_close split: option.splits)

lemma inv_live_onclose: "inv_live s \<Longrightarrow> inv_live (onclose_handler s)"
  by (simp add: onclose_handler_def)

lemma inv_live_onopen: "inv_live s \<Longrightarrow> inv_live (onopen_handler s)"
  by (simp add: onopen_handler_def)

lemma inv_live_onmessage: "inv_live s \<Longrightarrow> inv_live (onmessage_handler E d s)"
  by (simp add: onmessage_handler_def try_parse_def split: option.splits)

lemma inv_live_step: "inv_live s \<Longrightarrow> inv_live (step E e s)"
proof (cases e)
  case Mount
  assume "inv_live s"
  then have "inv_live (s\<lparr>connectRef := True, shouldConnectRef := True, mounted := True\<rparr>)"
    by (simp add: inv_live_def)
  then show ?thesis using \<open>inv_live s\<close> by (simp add: Mount mount_effect_def inv_live_connect)
next
  case Unmount
  assume "inv_live s"
  then have "inv_live (s\<lparr>shouldConnectRef := False\<rparr>)" by (simp add: inv_live_def)
  then have "inv_live (cleanupSocket (s\<lparr>shouldConnectRef := False\<rparr>))"
    by (rule inv_live_cleanupSocket)
  then show ?thesis by (simp add: Unmount teardown_def inv_live_def)
next
  case CallConnect
  assume "inv_live s"
  then show ?thesis by (simp add: CallConnect inv_live_connect)
next
  case (Advance d)
  assume "inv_live s"
  then show ?thesis by (simp add: Advance inv_live_def)
next
  case (TimerFire t)
  assume "inv_live s"
  then have "inv_live ((clearTimeout t s)\<lparr>reconnectTimerRef := None\<rparr>)"
    by (simp add: inv_live_def clearTimeout_def)
  then show ?thesis using \<open>inv_live s\<close>
    by (simp add: TimerFire timer_callback_def Let_def inv_live_connect split: option.splits)
next
  case (SockOpen i)
  assume "inv_live s"
  then show ?thesis
    by (simp add: SockOpen sock_is_def Let_def inv_live_onopen inv_live_set_open live_def)
next
  case (SockMessage i d)
  assume "inv_live s"
  then show ?thesis by (simp add: SockMessage inv_live_onmessage)
next
  case (SockError i)
  assume "inv_live s"
  then show ?thesis by (simp add: SockError inv_live_onerror)
next
  case (SockClosing i)
  assume "inv_live s"
  then show ?thesis by (simp add: SockClosing inv_live_set_down)
next
  case (SockClose i)
  assume "inv_live s"
  then show ?thesis by (simp add: SockClose Let_def inv_live_onclose inv_live_set_down)
next
  case (SockFail i)
  assume "inv_live s"
  then show ?thesis
    by (simp add: SockFail Let_def inv_live_onclose inv_live_onerror inv_live_set_down)
qed

lemma run_snoc: "run E (es @ [e]) s = step E e (run E es s)"
  by (simp add: run_def)

lemma run_Nil [simp]: "run E [] s = s"
  by (simp add: run_def)

lemma run_Cons: "run E (e # es) s = run E es (step E e s)"
  by (simp add: run_def)

lemma inv_live_run: "inv_live s \<Longrightarrow> inv_live (run E es s)"
  by (induction es rule: rev_induct) (simp_all add: run_snoc inv_live_step)

lemma inv_live_initial: "inv_live initial_hook"
  by (simp add: inv_live_def initial_hook_def)


text \<open>The timer invariant holds under every event.\<close>

lemma inv_timer_emit [simp]:
  "inv_timer (setReadyState r s) = inv_timer s" "inv_timer (setLiveData v s) = inv_timer s"
  "inv_timer (set_sock_state i r s) = inv_timer s" "inv_timer (sock_close i s) = inv_timer s"
  by (simp_all add: inv_timer_def setReadyState_def setLiveData_def set_sock_state_def
      sock_close_def)

lemma inv_timer_scheduleReconnect: "inv_timer s \<Longrightarrow> inv_timer (scheduleReconnect s)"
  by (auto simp: inv_timer_def scheduleReconnect_def)

lemma inv_timer_connect: "inv_timer s \<Longrightarrow> inv_timer (connect E s)"
  by (auto simp: connect_def Let_def intro!: inv_timer_scheduleReconnect)
     (simp_all add: inv_timer_def setReadyState_def)

lemma inv_timer_cleanupSocket: "inv_timer s \<Longrightarrow> inv_timer (cleanupSocket s)"
  by (auto simp: cleanupSocket_def Let_def inv_timer_def clearTimeout_def sock_close_def
      detach_def set_sock_state_def split: option.splits)

lemma inv_timer_fire:
  "inv_timer s \<Longrightarrow> map_of (timers s) t = Some due \<Longrightarrow>
   inv_timer ((clearTimeout t s)\<lparr>reconnectTimerRef := None\<rparr>) \<and> reconnectTimerRef s = Some t \<and>
   timers s = [(t, due)] \<and> timers (clearTimeout t s) = []"
  by (cases "timers s"; cases "reconnectTimerRef s")
     (auto simp: inv_timer_def clearTimeout_def split: if_splits)

lemma inv_timer_step: "inv_timer s \<Longrightarrow> inv_timer (step E e s)"
proof (cases e)
  case Mount
  assume "inv_timer s"
  then have "inv_timer (s\<lparr>connectRef := True, shouldConnectRef := True, mounted := True\<rparr>)"
    by (simp add: inv_timer_def)
  then show ?thesis using \<open>inv_timer s\<close> by (simp add: Mount mount_effect_def inv_timer_connect)
next
  case Unmount
  assume "inv_timer s"
  then have "inv_timer (s\<lparr>shouldConnectRef := False\<rparr>)" by (simp add: inv_timer_def)
  then have "inv_timer (cleanupSocket (s\<lparr>shouldConnectRef := False\<rparr>))"
    by (rule inv_timer_cleanupSocket)
  then show ?thesis by (simp add: Unmount teardown_def inv_timer_def)
next
  case CallConnect
  assume "inv_timer s"
  then show ?thesis by (simp add: CallConnect inv_timer_connect)
next
  case (Advance d)
  assume "inv_timer s"
  then show ?thesis by (simp add: Advance inv_timer_def)
next
  case (TimerFire t)
  assume "inv_timer s"
  then show ?thesis
    by (auto simp: TimerFire timer_callback_def Let_def inv_timer_connect
        dest: inv_timer_fire split: option.splits)
next
  case (SockOpen i)
  assume "inv_timer s"
  then show ?thesis by (simp add: SockOpen Let_def onopen_handler_def)
next
  case (SockMessage i d)
  assume "inv_timer s"
  then show ?thesis
    by (simp add: SockMessage onmessage_handler_def try_parse_def split: option.splits)
next
  case (SockError i)
  assume "inv_timer s"
  then show ?thesis
    by (simp add: SockError onerror_handler_def Let_def split: option.splits)
next
  case (SockClosing i)
  assume "inv_timer s"
  then show ?thesis by (simp add: SockClosing)
next
  case (SockClose i)
  assume "inv_timer s"
  then show ?thesis
    by (simp add: SockClose Let_def onclose_handler_def inv_timer_scheduleReconnect)
next
  case (SockFail i)
  assume "inv_timer s"
  then show ?thesis
    by (simp add: SockFail Let_def onclose_handler_def onerror_handler_def
        inv_timer_scheduleReconnect split: option.splits)
qed

lemma inv_timer_run: "inv_timer s \<Longrightarrow> inv_timer (run E es s)"
  by (induction es rule: rev_induct) (simp_all add: run_snoc inv_timer_step)

lemma inv_timer_initial: "inv_timer initial_hook"
  by (simp add: inv_timer_def initial_hook_def)

lemma inv_timer_length: "inv_timer s \<Longrightarrow> length (timers s) \<le> 1"
proof -
  assume "inv_timer s"
  then have "length (map fst (timers s)) \<le> 1"
    by (simp add: inv_timer_def split: option.splits)
  then show ?thesis by simp
qed

lemma inv_hook_timer: "inv_hook s \<Longrightarrow> inv_timer s"
  by (simp add: inv_hook_def)

lemma inv_hook_refD: "inv_hook s \<Longrightarrow> wsRef s = Some i \<Longrightarrow> i < length (sockets s)"
  unfolding inv_hook_def by blast

lemma inv_hook_attachedD:
  "inv_hook s \<Longrightarrow> i < length (sockets s) \<Longrightarrow> attached (sockets s ! i) \<Longrightarrow>
   sock_state (sockets s ! i) \<noteq> CLOSED \<Longrightarrow> wsRef s = Some i"
  unfolding inv_hook_def by blast

lemma inv_hook_pendingD:
  "inv_hook s \<Longrightarrow> reconnectTimerRef s \<noteq> None \<Longrightarrow> wsRef s = Some i \<Longrightarrow>
   sock_state (sockets s ! i) = CLOSED"
  unfolding inv_hook_def by blast

lemma inv_hook_mountedD:
  "inv_hook s \<Longrightarrow> \<not> mounted s \<Longrightarrow> wsRef s = None \<and> reconnectTimerRef s = None"
  unfolding inv_hook_def by blast

lemma attached_sock_state [simp]: "attached (sk\<lparr>sock_state := r\<rparr>) = attached sk"
  by (simp add: attached_def)

text \<open>The three outcomes of \<^verbatim>\<open>connect\<close>.\<close>

lemma connect_noop: "\<not> shouldConnectRef s \<or> current_live s \<Longrightarrow> connect E s = s"
  by (auto simp: connect_def)

lemma connect_throws:
  "shouldConnectRef s \<Longrightarrow> \<not> current_live s \<Longrightarrow>
   ctor_throws E (fst (getUrl (urlOverride E) (env_window E))) \<Longrightarrow>
   connect E s =
     scheduleReconnect ((setReadyState CONNECTING s)\<lparr>ctor_calls := Suc (ctor_calls s)\<rparr>)"
  by (simp add: connect_def Let_def setReadyState_def)

lemma connect_succeeds:
  "shouldConnectRef s \<Longrightarrow> \<not> current_live s \<Longrightarrow>
   \<not> ctor_throws E (fst (getUrl (urlOverride E) (env_window E))) \<Longrightarrow>
   connect E s =
     (setReadyState CONNECTING s)\<lparr>ctor_calls := Suc (ctor_calls s),
        sockets := sockets s @ [new_socket], wsRef := Some (length (sockets s))\<rparr>"
  by (simp add: connect_def Let_def setReadyState_def)

text \<open>The invariant depends on five fields only.\<close>

lemma inv_hook_fields:
  assumes "inv_hook s"
    and "wsRef s' = wsRef s" "sockets s' = sockets s" "timers s' = timers s"
    "reconnectTimerRef s' = reconnectTimerRef s" "mounted s' = mounted s"
  shows "inv_hook s'"
  using assms(1) unfolding inv_hook_def inv_timer_def assms(2-6) .

text \<open>Arming or clearing the timer while the current socket, if any, is closed.\<close>

lemma inv_hook_timer_change:
  assumes "inv_hook s"
    and "wsRef s' = wsRef s" "sockets s' = sockets s" "mounted s' = mounted s"
    and "inv_timer s'"
    and "reconnectTimerRef s' \<noteq> None \<longrightarrow>
           mounted s \<and> (\<forall>i. wsRef s = Some i \<longrightarrow> sock_state (sockets s ! i) = CLOSED)"
  shows "inv_hook s'"
  unfolding inv_hook_def assms(2-4)
  using assms(1,5,6) unfolding inv_hook_def by blast

lemma inv_hook_scheduleReconnect:
  assumes "inv_hook s" and "mounted s"
    and "\<forall>i. wsRef s = Some i \<longrightarrow> sock_state (sockets s ! i) = CLOSED"
  shows "inv_hook (scheduleReconnect s)"
proof (rule inv_hook_timer_change [OF assms(1)])
  show "inv_timer (scheduleReconnect s)"
    using assms(1) by (simp add: inv_hook_timer inv_timer_scheduleReconnect)
  show "reconnectTimerRef (scheduleReconnect s) \<noteq> None \<longrightarrow>
           mounted s \<and> (\<forall>i. wsRef s = Some i \<longrightarrow> sock_state (sockets s ! i) = CLOSED)"
    using assms(2,3) by blast
qed simp_all


text \<open>Replacing one socket.\<close>

lemma inv_hook_sock_update:
  assumes inv: "inv_hook s" and i: "i < length (sockets s)"
    and f: "wsRef s' = wsRef s" "timers s' = timers s"
      "reconnectTimerRef s' = reconnectTimerRef s" "mounted s' = mounted s"
    and u: "sockets s' = (sockets s)[i := sk]"
    and k: "attached sk \<and> sock_state sk \<noteq> CLOSED \<longrightarrow> wsRef s = Some i"
    and p: "reconnectTimerRef s \<noteq> None \<and> wsRef s = Some i \<longrightarrow> sock_state sk = CLOSED"
  shows "inv_hook s'"
proof -
  have l: "length (sockets s') = length (sockets s)" by (simp add: u)
  have n: "\<And>j. j < length (sockets s) \<Longrightarrow>
             sockets s' ! j = (if i = j then sk else sockets s ! j)"
    by (simp add: u nth_list_update_if)
  have 1: "\<forall>j. wsRef s = Some j \<longrightarrow> j < length (sockets s)"
    using inv unfolding inv_hook_def by blast
  have 2: "inv_timer s'" using inv unfolding inv_hook_def inv_timer_def f by blast
  have 3: "\<forall>j<length (sockets s).
        attached (sockets s' ! j) \<and> sock_state (sockets s' ! j) \<noteq> CLOSED \<longrightarrow> wsRef s = Some j"
  proof (intro allI impI)
    fix j assume j: "j < length (sockets s)"
      and a: "attached (sockets s' ! j) \<and> sock_state (sockets s' ! j) \<noteq> CLOSED"
    show "wsRef s = Some j"
    proof (cases "i = j")
      case True
      with n [OF j] a k show ?thesis by simp
    next
      case False
      with n [OF j] a have "attached (sockets s ! j) \<and> sock_state (sockets s ! j) \<noteq> CLOSED"
        by simp
      with inv j show ?thesis unfolding inv_hook_def by blast
    qed
  qed
  have 4: "reconnectTimerRef s \<noteq> None \<longrightarrow>
       (\<forall>j. wsRef s = Some j \<longrightarrow> sock_state (sockets s' ! j) = CLOSED)"
  proof (intro allI impI)
    fix j assume r: "reconnectTimerRef s \<noteq> None" and w: "wsRef s = Some j"
    from 1 w have j: "j < length (sockets s)" by blast
    show "sock_state (sockets s' ! j) = CLOSED"
    proof (cases "i = j")
      case True
      with n [OF j] p r w show ?thesis by simp
    next
      case False
      from inv r w have "sock_state (sockets s ! j) = CLOSED" unfolding inv_hook_def by blast
      with False n [OF j] show ?thesis by simp
    qed
  qed
  have 5: "\<not> mounted s \<longrightarrow> wsRef s = None \<and> reconnectTimerRef s = None"
    using inv unfolding inv_hook_def by blast
  show ?thesis unfolding inv_hook_def f l using 1 2 3 4 5 by blast
qed

lemma inv_hook_set_sock_state:
  assumes "inv_hook s" and "i < length (sockets s)" and "sock_state (sockets s ! i) \<noteq> CLOSED"
  shows "inv_hook (set_sock_state i r s)"
proof (rule inv_hook_sock_update [OF assms(1,2)])
  show "sockets (set_sock_state i r s) = (sockets s)[i := (sockets s ! i)\<lparr>sock_state := r\<rparr>]"
    by (simp add: set_sock_state_def)
  show "attached ((sockets s ! i)\<lparr>sock_state := r\<rparr>) \<and>
        sock_state ((sockets s ! i)\<lparr>sock_state := r\<rparr>) \<noteq> CLOSED \<longrightarrow> wsRef s = Some i"
    using inv_hook_attachedD [OF assms(1,2) _ assms(3)] by simp
  show "reconnectTimerRef s \<noteq> None \<and> wsRef s = Some i \<longrightarrow>
        sock_state ((sockets s ! i)\<lparr>sock_state := r\<rparr>) = CLOSED"
    using inv_hook_pendingD [OF assms(1), of i] assms(3) by blast
qed simp_all

lemma inv_hook_sock_close:
  assumes "inv_hook s"
  shows "inv_hook (sock_close i s)"
proof (cases "i < length (sockets s) \<and> live (sockets s ! i)")
  case False
  then have "sock_close i s = s" by (auto simp: sock_close_def)
  with assms show ?thesis by simp
next
  case True
  then have "sock_state (sockets s ! i) \<noteq> CLOSED" by (auto simp: live_def)
  with assms True have "inv_hook (set_sock_state i CLOSING s)"
    by (simp add: inv_hook_set_sock_state)
  moreover from True have "sock_close i s = set_sock_state i CLOSING s"
    by (simp add: sock_close_def)
  ultimately show ?thesis by simp
qed

lemma inv_hook_detach:
  assumes "inv_hook s" and "i < length (sockets s)"
  shows "inv_hook (detach i s)"
proof (rule inv_hook_sock_update [OF assms(1,2)])
  show "sockets (detach i s) = (sockets s)[i := (sockets s ! i)\<lparr>onopen := False,
          onmessage := False, onerror := False, onclose := False\<rparr>]"
    by (simp add: detach_def)
  show "attached ((sockets s ! i)\<lparr>onopen := False, onmessage := False, onerror := False,
           onclose := False\<rparr>) \<and>
        sock_state ((sockets s ! i)\<lparr>onopen := False, onmessage := False, onerror := False,
           onclose := False\<rparr>) \<noteq> CLOSED \<longrightarrow> wsRef s = Some i"
    by (simp add: attached_def)
  show "reconnectTimerRef s \<noteq> None \<and> wsRef s = Some i \<longrightarrow>
        sock_state ((sockets s ! i)\<lparr>onopen := False, onmessage := False, onerror := False,
           onclose := False\<rparr>) = CLOSED"
    using inv_hook_pendingD [OF assms(1), of i] by simp
qed simp_all


text \<open>Appending the new socket and making it current.\<close>

lemma inv_hook_connect:
  assumes inv: "inv_hook s" and m: "mounted s" and r: "reconnectTimerRef s = None"
    and c: "\<forall>i. wsRef s = Some i \<longrightarrow> sock_state (sockets s ! i) = CLOSED"
  shows "inv_hook (connect E s)"
proof -
  let ?b = "(setReadyState CONNECTING s)\<lparr>ctor_calls := Suc (ctor_calls s)\<rparr>"
  have b: "inv_hook ?b"
    by (rule inv_hook_fields [OF inv]) simp_all
  consider (noop) "\<not> shouldConnectRef s \<or> current_live s"
    | (throws) "shouldConnectRef s" "\<not> current_live s"
        "ctor_throws E (fst (getUrl (urlOverride E) (env_window E)))"
    | (ok) "shouldConnectRef s" "\<not> current_live s"
        "\<not> ctor_throws E (fst (getUrl (urlOverride E) (env_window E)))"
    by blast
  then show ?thesis
  proof cases
    case noop
    then show ?thesis using inv by (simp add: connect_noop)
  next
    case throws
    have "inv_hook (scheduleReconnect ?b)"
      by (rule inv_hook_scheduleReconnect [OF b]) (use m c in simp_all)
    then show ?thesis by (simp add: connect_throws [OF throws])
  next
    case ok
    let ?s' = "connect E s"
    have e: "?s' = (setReadyState CONNECTING s)\<lparr>ctor_calls := Suc (ctor_calls s),
        sockets := sockets s @ [new_socket], wsRef := Some (length (sockets s))\<rparr>"
      by (rule connect_succeeds [OF ok])
    have f: "wsRef ?s' = Some (length (sockets s))" "sockets ?s' = sockets s @ [new_socket]"
      "timers ?s' = timers s" "reconnectTimerRef ?s' = None" "mounted ?s' = True"
      by (simp_all add: e r m)
    have none: "\<And>j. j < length (sockets s) \<Longrightarrow>
        \<not> (attached (sockets s ! j) \<and> sock_state (sockets s ! j) \<noteq> CLOSED)"
      using inv_hook_attachedD [OF inv] c by blast
    have 3: "\<forall>j<length (sockets s @ [new_socket]).
        attached ((sockets s @ [new_socket]) ! j) \<and>
        sock_state ((sockets s @ [new_socket]) ! j) \<noteq> CLOSED \<longrightarrow>
        Some (length (sockets s)) = Some j"
    proof (intro allI impI)
      fix j assume j: "j < length (sockets s @ [new_socket])"
        and a: "attached ((sockets s @ [new_socket]) ! j) \<and>
                sock_state ((sockets s @ [new_socket]) ! j) \<noteq> CLOSED"
      show "Some (length (sockets s)) = Some j"
      proof (cases "j < length (sockets s)")
        case True
        with a none [OF True] show ?thesis by (simp add: nth_append)
      next
        case False
        with j show ?thesis by simp
      qed
    qed
    have 2: "inv_timer ?s'"
      using inv_hook_timer [OF inv] by (simp add: inv_timer_def f r)
    show ?thesis unfolding inv_hook_def f using 2 3 by simp
  qed
qed

text \<open>Dropping the reference to a socket without handlers, and unmounting.\<close>

lemma inv_hook_drop:
  assumes inv: "inv_hook s" and r: "reconnectTimerRef s = None"
    and d: "\<forall>i. wsRef s = Some i \<longrightarrow> \<not> attached (sockets s ! i)"
    and f: "wsRef s' = None" "sockets s' = sockets s" "timers s' = timers s"
      "reconnectTimerRef s' = None" "mounted s' = False"
  shows "inv_hook s'"
proof -
  have 2: "inv_timer s'" using inv_hook_timer [OF inv] by (simp add: inv_timer_def f r)
  have 3: "\<forall>j<length (sockets s).
      \<not> (attached (sockets s ! j) \<and> sock_state (sockets s ! j) \<noteq> CLOSED)"
    using inv_hook_attachedD [OF inv] d by blast
  show ?thesis unfolding inv_hook_def f using 2 3 by simp
qed

lemma cleanupSocket_timer:
  "inv_timer s \<Longrightarrow> timers (cleanupSocket s) = [] \<and> reconnectTimerRef (cleanupSocket s) = None"
  by (cases "timers s"; cases "reconnectTimerRef s")
     (auto simp: cleanupSocket_def Let_def inv_timer_def clearTimeout_def split: option.splits)

text \<open>The sockets after an operation on one of them.\<close>

lemma length_sockets_ops [simp]:
  "length (sockets (set_sock_state i r s)) = length (sockets s)"
  "length (sockets (sock_close i s)) = length (sockets s)"
  "length (sockets (detach i s)) = length (sockets s)"
  by (simp_all add: set_sock_state_def sock_close_def detach_def)

lemma set_sock_state_nth:
  "j < length (sockets s) \<Longrightarrow>
   sockets (set_sock_state i r s) ! j =
     (if i = j then (sockets s ! j)\<lparr>sock_state := r\<rparr> else sockets s ! j)"
  by (simp add: set_sock_state_def nth_list_update_if)

lemma sock_close_nth:
  "j < length (sockets s) \<Longrightarrow>
   sockets (sock_close i s) ! j =
     (if i = j \<and> live (sockets s ! j) then (sockets s ! j)\<lparr>sock_state := CLOSING\<rparr>
      else sockets s ! j)"
  by (auto simp: sock_close_def set_sock_state_nth)

lemma detach_nth:
  "j < length (sockets s) \<Longrightarrow>
   sockets (detach i s) ! j =
     (if i = j then (sockets s ! j)\<lparr>onopen := False, onmessage := False, onerror := False,
                                   onclose := False\<rparr>
      else sockets s ! j)"
  by (simp add: detach_def nth_list_update_if)

lemma onerror_handler_eq:
  "onerror_handler s =
     (case wsRef s of None \<Rightarrow> setReadyState CLOSED s
      | Some j \<Rightarrow> sock_close j (setReadyState CLOSED s))"
  by (simp add: onerror_handler_def Let_def)

lemma onerror_handler_fields [simp]:
  "liveData (onerror_handler s) = liveData s"
  "shouldConnectRef (onerror_handler s) = shouldConnectRef s"
  "wsRef (onerror_handler s) = wsRef s"
  "reconnectTimerRef (onerror_handler s) = reconnectTimerRef s"
  "connectRef (onerror_handler s) = connectRef s"
  "timers (onerror_handler s) = timers s"
  "clock (onerror_handler s) = clock s"
  "next_timer (onerror_handler s) = next_timer s"
  "ctor_calls (onerror_handler s) = ctor_calls s"
  "mounted (onerror_handler s) = mounted s"
  "length (sockets (onerror_handler s)) = length (sockets s)"
  by (simp_all add: onerror_handler_eq split: option.splits)

lemma onmessage_handler_eq:
  "onmessage_handler E d s =
     setLiveData (case json_parse E (payload_text d) of None \<Rightarrow> payload_raw d | Some v \<Rightarrow> v) s"
  by (simp add: onmessage_handler_def try_parse_def split: option.splits)

lemma inv_hook_fields_mounted:
  assumes "inv_hook s"
    and "wsRef s' = wsRef s" "sockets s' = sockets s" "timers s' = timers s"
    "reconnectTimerRef s' = reconnectTimerRef s" "mounted s'"
  shows "inv_hook s'"
  using assms(1,6) unfolding inv_hook_def inv_timer_def assms(2-5) by blast

lemma inv_hook_onerror:
  assumes "inv_hook s"
  shows "inv_hook (onerror_handler s)"
proof -
  have b: "inv_hook (setReadyState CLOSED s)"
    by (rule inv_hook_fields [OF assms]) simp_all
  show ?thesis
    by (cases "wsRef s") (simp_all add: onerror_handler_eq b inv_hook_sock_close)
qed

lemma inv_hook_onclose:
  assumes "inv_hook s" and "mounted s"
    and "\<forall>i. wsRef s = Some i \<longrightarrow> sock_state (sockets s ! i) = CLOSED"
  shows "inv_hook (onclose_handler s)"
proof -
  have b: "inv_hook (setReadyState CLOSED s)"
    by (rule inv_hook_fields [OF assms(1)]) simp_all
  show ?thesis unfolding onclose_handler_def
    by (rule inv_hook_scheduleReconnect [OF b]) (use assms in simp_all)
qed

lemma inv_hook_teardown:
  assumes inv: "inv_hook s"
  shows "inv_hook (teardown s)"
proof -
  define s0 where "s0 = s\<lparr>shouldConnectRef := False\<rparr>"
  define s1 where "s1 = (case reconnectTimerRef s0 of None \<Rightarrow> s0
             | Some t \<Rightarrow> (clearTimeout t s0)\<lparr>reconnectTimerRef := None\<rparr>)"
  define s2 where "s2 = (case wsRef s1 of None \<Rightarrow> s1 | Some i \<Rightarrow> sock_close i (detach i s1))"
  have 0: "inv_hook s0" by (rule inv_hook_fields [OF inv]) (simp_all add: s0_def)
  have t0: "inv_timer s0" by (rule inv_hook_timer [OF 0])
  have f1: "wsRef s1 = wsRef s0" "sockets s1 = sockets s0" "mounted s1 = mounted s0"
    "reconnectTimerRef s1 = None"
    by (simp_all add: s1_def split: option.splits)
  have t1: "inv_timer s1"
    using t0 by (cases "timers s0"; cases "reconnectTimerRef s0")
      (auto simp: s1_def inv_timer_def clearTimeout_def)
  have 1: "inv_hook s1"
    by (rule inv_hook_timer_change [OF 0 f1(1-3) t1]) (simp add: f1)
  have f2: "reconnectTimerRef s2 = None"
    using f1(4) by (simp add: s2_def split: option.splits)
  have 2: "inv_hook s2"
  proof (cases "wsRef s1")
    case None
    then show ?thesis using 1 by (simp add: s2_def)
  next
    case (Some i)
    then have "i < length (sockets s1)" using inv_hook_refD [OF 1] by blast
    then have "inv_hook (sock_close i (detach i s1))"
      using 1 by (simp add: inv_hook_sock_close inv_hook_detach)
    then show ?thesis using Some by (simp add: s2_def)
  qed
  have d: "\<forall>i. wsRef s2 = Some i \<longrightarrow> \<not> attached (sockets s2 ! i)"
  proof (intro allI impI)
    fix i assume w: "wsRef s2 = Some i"
    have "wsRef s2 = wsRef s1" by (simp add: s2_def split: option.splits)
    with w have w1: "wsRef s1 = Some i" by simp
    then have i: "i < length (sockets s1)" using inv_hook_refD [OF 1] by blast
    have "s2 = sock_close i (detach i s1)" using w1 by (simp add: s2_def)
    moreover have "\<not> attached (sockets (sock_close i (detach i s1)) ! i)"
      using i by (simp add: sock_close_nth detach_nth attached_def)
    ultimately show "\<not> attached (sockets s2 ! i)" by simp
  qed
  have e: "teardown s = s2\<lparr>wsRef := None, mounted := False\<rparr>"
    unfolding teardown_def cleanupSocket_def Let_def close_if_live_eq s2_def s1_def s0_def ..
  show ?thesis unfolding e
    by (rule inv_hook_drop [OF 2 f2 d]) (simp_all add: f2)
qed


text \<open>The invariant holds under every event but a call of \<^verbatim>\<open>connect\<close> from outside.\<close>

lemma inv_hook_step:
  assumes inv: "inv_hook s" and e: "e \<noteq> CallConnect"
  shows "inv_hook (step E e s)"
proof (cases e)
  case Mount
  show ?thesis
  proof (cases "mounted s")
    case True
    then show ?thesis using inv by (simp add: Mount)
  next
    case False
    let ?s0 = "s\<lparr>connectRef := True, shouldConnectRef := True, mounted := True\<rparr>"
    from inv_hook_mountedD [OF inv False]
    have n: "wsRef s = None" "reconnectTimerRef s = None" by simp_all
    have 0: "inv_hook ?s0" by (rule inv_hook_fields_mounted [OF inv]) simp_all
    have "inv_hook (connect E ?s0)"
      by (rule inv_hook_connect [OF 0]) (simp_all add: n)
    then show ?thesis using False by (simp add: Mount mount_effect_def)
  qed
next
  case Unmount
  then show ?thesis using inv by (simp add: inv_hook_teardown)
next
  case CallConnect
  with e show ?thesis by simp
next
  case (Advance d)
  have "inv_hook (s\<lparr>clock := clock s + d\<rparr>)" by (rule inv_hook_fields [OF inv]) simp_all
  then show ?thesis by (simp add: Advance)
next
  case (TimerFire t)
  show ?thesis
  proof (cases "map_of (timers s) t")
    case None
    then show ?thesis using inv by (simp add: TimerFire)
  next
    case (Some due)
    show ?thesis
    proof (cases "due \<le> clock s")
      case False
      then show ?thesis using inv Some by (simp add: TimerFire)
    next
      case True
      let ?s1 = "(clearTimeout t s)\<lparr>reconnectTimerRef := None\<rparr>"
      from inv_timer_fire [OF inv_hook_timer [OF inv] Some]
      have t1: "inv_timer ?s1" and r: "reconnectTimerRef s = Some t" by simp_all
      have m: "mounted s" using inv_hook_mountedD [OF inv] r by auto
      have c: "\<forall>i. wsRef s = Some i \<longrightarrow> sock_state (sockets s ! i) = CLOSED"
        using inv_hook_pendingD [OF inv] r by simp
      have 1: "inv_hook ?s1"
        by (rule inv_hook_timer_change [OF inv _ _ _ t1]) simp_all
      have 2: "inv_hook (connect E ?s1)"
        by (rule inv_hook_connect [OF 1]) (use m c in simp_all)
      show ?thesis using Some True 1 2 by (simp add: TimerFire timer_callback_def Let_def)
    qed
  qed
next
  case (SockOpen i)
  show ?thesis
  proof (cases "sock_is s i (\<lambda>sk. sock_state sk = CONNECTING)")
    case False
    then show ?thesis using inv by (simp add: SockOpen)
  next
    case True
    then have 1: "inv_hook (set_sock_state i OPEN s)"
      using inv by (simp add: sock_is_def inv_hook_set_sock_state)
    have 2: "inv_hook (onopen_handler (set_sock_state i OPEN s))"
      unfolding onopen_handler_def by (rule inv_hook_fields [OF 1]) simp_all
    show ?thesis using True 1 2 by (simp add: SockOpen Let_def)
  qed
next
  case (SockMessage i d)
  have "inv_hook (onmessage_handler E d s)"
    unfolding onmessage_handler_eq by (rule inv_hook_fields [OF inv]) simp_all
  then show ?thesis using inv by (simp add: SockMessage)
next
  case (SockError i)
  then show ?thesis using inv by (simp add: inv_hook_onerror)
next
  case (SockClosing i)
  then show ?thesis using inv by (simp add: sock_is_def inv_hook_set_sock_state)
next
  case (SockClose i)
  show ?thesis
  proof (cases "sock_is s i (\<lambda>sk. sock_state sk \<noteq> CLOSED)")
    case False
    then show ?thesis using inv by (simp add: SockClose)
  next
    case True
    then have i: "i < length (sockets s)" and nc: "sock_state (sockets s ! i) \<noteq> CLOSED"
      by (simp_all add: sock_is_def)
    let ?s1 = "set_sock_state i CLOSED s"
    have 1: "inv_hook ?s1" using inv i nc by (simp add: inv_hook_set_sock_state)
    show ?thesis
    proof (cases "onclose (sockets ?s1 ! i)")
      case False
      then show ?thesis using True 1 by (simp add: SockClose Let_def)
    next
      case c: True
      then have "attached (sockets s ! i)" using i by (simp add: set_sock_state_nth attached_def)
      from inv_hook_attachedD [OF inv i this nc] have w: "wsRef s = Some i" .
      have m: "mounted ?s1" using inv_hook_mountedD [OF inv] w by auto
      have "inv_hook (onclose_handler ?s1)"
        by (rule inv_hook_onclose [OF 1 m]) (use w i in \<open>simp add: set_sock_state_nth\<close>)
      then show ?thesis using True c by (simp add: SockClose Let_def)
    qed
  qed
next
  case (SockFail i)
  show ?thesis
  proof (cases "sock_is s i (\<lambda>sk. sock_state sk \<noteq> CLOSED)")
    case False
    then show ?thesis using inv by (simp add: SockFail)
  next
    case True
    then have i: "i < length (sockets s)" and nc: "sock_state (sockets s ! i) \<noteq> CLOSED"
      by (simp_all add: sock_is_def)
    define s1 where "s1 = set_sock_state i CLOSED s"
    define s2 where "s2 = (if onerror (sockets s1 ! i) then onerror_handler s1 else s1)"
    have 1: "inv_hook s1" using inv i nc by (simp add: s1_def inv_hook_set_sock_state)
    have 2: "inv_hook s2" using 1 by (simp add: s2_def inv_hook_onerror)
    have st: "step E e s = (if onclose (sockets s2 ! i) then onclose_handler s2 else s2)"
      using True by (simp add: SockFail Let_def s1_def s2_def)
    have f1: "wsRef s1 = wsRef s" "mounted s1 = mounted s" "length (sockets s1) = length (sockets s)"
      by (simp_all add: s1_def)
    have n1: "sockets s1 ! i = (sockets s ! i)\<lparr>sock_state := CLOSED\<rparr>"
      using i by (simp add: s1_def set_sock_state_nth)
    have f2: "wsRef s2 = wsRef s" "mounted s2 = mounted s"
      by (simp_all add: s2_def f1)
    have n2: "sockets s2 ! i = (sockets s ! i)\<lparr>sock_state := CLOSED\<rparr>"
    proof (cases "onerror (sockets s1 ! i)")
      case False
      then show ?thesis by (simp add: s2_def n1)
    next
      case True
      have "sockets (onerror_handler s1) ! i = sockets s1 ! i"
        using i by (cases "wsRef s1")
          (simp_all add: onerror_handler_eq f1 sock_close_nth n1 live_def)
      with True show ?thesis by (simp add: s2_def n1)
    qed
    show ?thesis
    proof (cases "onclose (sockets s2 ! i)")
      case False
      then show ?thesis using 2 by (simp add: st)
    next
      case c: True
      then have "attached (sockets s ! i)" by (simp add: n2 attached_def)
      from inv_hook_attachedD [OF inv i this nc] have w: "wsRef s = Some i" .
      have m: "mounted s2" using inv_hook_mountedD [OF inv] w by (auto simp: f2)
      have "inv_hook (onclose_handler s2)"
        by (rule inv_hook_onclose [OF 2 m]) (simp add: f2 w n2)
      then show ?thesis using c by (simp add: st)
    qed
  qed
qed

lemma inv_hook_initial: "inv_hook initial_hook"
  by (simp add: inv_hook_def inv_timer_def initial_hook_def)

lemma inv_hook_run:
  "inv_hook s \<Longrightarrow> CallConnect \<notin> set es \<Longrightarrow> inv_hook (run E es s)"
  by (induction es rule: rev_induct) (auto simp: run_snoc intro: inv_hook_step)

text \<open>Teardown, for any state.\<close>

lemma teardown_fields [simp]:
  "emitted (teardown s) = emitted s" "liveData (teardown s) = liveData s"
  "readyState (teardown s) = readyState s" "ctor_calls (teardown s) = ctor_calls s"
  "clock (teardown s) = clock s" "next_timer (teardown s) = next_timer s"
  "connectRef (teardown s) = connectRef s" "shouldConnectRef (teardown s) = False"
  "wsRef (teardown s) = None" "reconnectTimerRef (teardown s) = None"
  "mounted (teardown s) = False" "length (sockets (teardown s)) = length (sockets s)"
  by (simp_all add: teardown_def cleanupSocket_def Let_def split: option.splits)

lemma teardown_sockets:
  assumes "j < length (sockets s)"
  shows "sockets (teardown s) ! j =
     (if wsRef s = Some j
      then (sockets s ! j)\<lparr>onopen := False, onmessage := False, onerror := False,
             onclose := False,
             sock_state := (if live (sockets s ! j) then CLOSING else sock_state (sockets s ! j))\<rparr>
      else sockets s ! j)"
  using assms
  by (cases "wsRef s"; cases "reconnectTimerRef s")
     (auto simp: teardown_def cleanupSocket_def Let_def sock_close_nth detach_nth live_def)

lemma teardown_timers: "timers s = [] \<or> inv_timer s \<Longrightarrow> timers (teardown s) = []"
  by (cases "timers s"; cases "reconnectTimerRef s")
     (auto simp: teardown_def cleanupSocket_def Let_def clearTimeout_def inv_timer_def
        split: option.splits)

lemma teardown_idem: "teardown (teardown s) = teardown s"
proof -
  have "\<And>u. reconnectTimerRef u = None \<Longrightarrow> wsRef u = None \<Longrightarrow> \<not> shouldConnectRef u \<Longrightarrow>
        \<not> mounted u \<Longrightarrow> teardown u = u"
    by (simp add: teardown_def cleanupSocket_def Let_def)
  then show ?thesis by simp
qed

lemma quietD:
  "quiet s \<Longrightarrow> i < length (sockets s) \<Longrightarrow> sock_state (sockets s ! i) \<noteq> CLOSED \<Longrightarrow>
   \<not> onopen (sockets s ! i) \<and> \<not> onmessage (sockets s ! i) \<and>
   \<not> onerror (sockets s ! i) \<and> \<not> onclose (sockets s ! i)"
  unfolding quiet_def attached_def by blast

lemma quiet_fields:
  assumes "quiet s" and "shouldConnectRef s' = shouldConnectRef s" "timers s' = timers s"
    "sockets s' = sockets s"
  shows "quiet s'"
  using assms(1) unfolding quiet_def assms(2-4) .

lemma quiet_set_sock_state:
  assumes q: "quiet s" and i: "i < length (sockets s)"
    and nc: "sock_state (sockets s ! i) \<noteq> CLOSED"
  shows "quiet (set_sock_state i r s)"
proof -
  have na: "\<not> attached (sockets s ! i)" using quietD [OF q i nc] by (simp add: attached_def)
  have "\<forall>j<length (sockets s).
      \<not> attached (sockets (set_sock_state i r s) ! j) \<or>
      sock_state (sockets (set_sock_state i r s) ! j) = CLOSED"
  proof (intro allI impI)
    fix j assume j: "j < length (sockets s)"
    show "\<not> attached (sockets (set_sock_state i r s) ! j) \<or>
      sock_state (sockets (set_sock_state i r s) ! j) = CLOSED"
    proof (cases "i = j")
      case True
      with na j show ?thesis by (simp add: set_sock_state_nth)
    next
      case False
      with q j show ?thesis unfolding quiet_def by (simp add: set_sock_state_nth)
    qed
  qed
  with q show ?thesis unfolding quiet_def by simp
qed

lemma quiet_teardown:
  assumes q: "quiet s"
  shows "quiet (teardown s)"
proof -
  have t: "timers (teardown s) = []" using q by (simp add: teardown_timers quiet_def)
  have "\<forall>j<length (sockets s).
      \<not> attached (sockets (teardown s) ! j) \<or> sock_state (sockets (teardown s) ! j) = CLOSED"
  proof (intro allI impI)
    fix j assume j: "j < length (sockets s)"
    show "\<not> attached (sockets (teardown s) ! j) \<or> sock_state (sockets (teardown s) ! j) = CLOSED"
    proof (cases "wsRef s = Some j")
      case True
      with j show ?thesis by (simp add: teardown_sockets attached_def)
    next
      case False
      with q j show ?thesis unfolding quiet_def by (simp add: teardown_sockets)
    qed
  qed
  with t show ?thesis unfolding quiet_def by simp
qed

text \<open>After teardown nothing but a new mount has an observable effect.\<close>

lemma quiet_step:
  assumes q: "quiet s" and e: "e \<noteq> Mount"
  shows "quiet (step E e s) \<and> emitted (step E e s) = emitted s \<and>
         liveData (step E e s) = liveData s \<and> readyState (step E e s) = readyState s \<and>
         ctor_calls (step E e s) = ctor_calls s"
proof (cases e)
  case Mount
  with e show ?thesis by simp
next
  case Unmount
  then show ?thesis using quiet_teardown [OF q] by simp
next
  case CallConnect
  have "connect E s = s" using q by (simp add: connect_noop quiet_def)
  then show ?thesis using q by (simp add: CallConnect)
next
  case (Advance d)
  have "quiet (s\<lparr>clock := clock s + d\<rparr>)" by (rule quiet_fields [OF q]) simp_all
  then show ?thesis by (simp add: Advance)
next
  case (TimerFire t)
  have "map_of (timers s) t = None" using q by (simp add: quiet_def)
  then show ?thesis using q by (simp add: TimerFire)
next
  case (SockOpen i)
  show ?thesis
  proof (cases "sock_is s i (\<lambda>sk. sock_state sk = CONNECTING)")
    case False
    then show ?thesis using q by (simp add: SockOpen)
  next
    case True
    then have i: "i < length (sockets s)" and nc: "sock_state (sockets s ! i) \<noteq> CLOSED"
      by (simp_all add: sock_is_def)
    from quietD [OF q i nc] have "\<not> onopen (sockets (set_sock_state i OPEN s) ! i)"
      using i by (simp add: set_sock_state_nth)
    then show ?thesis using True quiet_set_sock_state [OF q i nc] by (simp add: SockOpen Let_def)
  qed
next
  case (SockMessage i d)
  show ?thesis
  proof (cases "sock_is s i (\<lambda>sk. sock_state sk = OPEN)")
    case False
    then show ?thesis using q by (simp add: SockMessage)
  next
    case True
    then have i: "i < length (sockets s)" and nc: "sock_state (sockets s ! i) \<noteq> CLOSED"
      by (simp_all add: sock_is_def)
    from quietD [OF q i nc] show ?thesis using q by (simp add: SockMessage)
  qed
next
  case (SockError i)
  show ?thesis
  proof (cases "sock_is s i (\<lambda>sk. sock_state sk \<noteq> CLOSED)")
    case False
    then show ?thesis using q by (simp add: SockError)
  next
    case True
    then have i: "i < length (sockets s)" and nc: "sock_state (sockets s ! i) \<noteq> CLOSED"
      by (simp_all add: sock_is_def)
    from quietD [OF q i nc] show ?thesis using q by (simp add: SockError)
  qed
next
  case (SockClosing i)
  show ?thesis
  proof (cases "sock_is s i (\<lambda>sk. sock_state sk = OPEN)")
    case False
    then show ?thesis using q by (simp add: SockClosing)
  next
    case True
    then have i: "i < length (sockets s)" and nc: "sock_state (sockets s ! i) \<noteq> CLOSED"
      by (simp_all add: sock_is_def)
    show ?thesis using True quiet_set_sock_state [OF q i nc] by (simp add: SockClosing)
  qed
next
  case (SockClose i)
  show ?thesis
  proof (cases "sock_is s i (\<lambda>sk. sock_state sk \<noteq> CLOSED)")
    case False
    then show ?thesis using q by (simp add: SockClose)
  next
    case True
    then have i: "i < length (sockets s)" and nc: "sock_state (sockets s ! i) \<noteq> CLOSED"
      by (simp_all add: sock_is_def)
    from quietD [OF q i nc] have "\<not> onclose (sockets (set_sock_state i CLOSED s) ! i)"
      using i by (simp add: set_sock_state_nth)
    then show ?thesis using True quiet_set_sock_state [OF q i nc] by (simp add: SockClose Let_def)
  qed
next
  case (SockFail i)
  show ?thesis
  proof (cases "sock_is s i (\<lambda>sk. sock_state sk \<noteq> CLOSED)")
    case False
    then show ?thesis using q by (simp add: SockFail)
  next
    case True
    then have i: "i < length (sockets s)" and nc: "sock_state (sockets s ! i) \<noteq> CLOSED"
      by (simp_all add: sock_is_def)
    from quietD [OF q i nc]
    have "\<not> onclose (sockets (set_sock_state i CLOSED s) ! i)"
      "\<not> onerror (sockets (set_sock_state i CLOSED s) ! i)"
      using i by (simp_all add: set_sock_state_nth)
    then show ?thesis using True quiet_set_sock_state [OF q i nc] by (simp add: SockFail Let_def)
  qed
qed

lemma quiet_run:
  "quiet s \<Longrightarrow> Mount \<notin> set es \<Longrightarrow>
   quiet (run E es s) \<and> emitted (run E es s) = emitted s \<and>
   liveData (run E es s) = liveData s \<and> readyState (run E es s) = readyState s \<and>
   ctor_calls (run E es s) = ctor_calls s"
proof (induction es rule: rev_induct)
  case Nil
  then show ?case by simp
next
  case (snoc e es)
  then have q: "quiet (run E es s)" and e: "e \<noteq> Mount" by auto
  from quiet_step [OF q e, of E] snoc show ?case by (simp add: run_snoc)
qed

lemma inv_hook_quiet_teardown:
  assumes "inv_hook s"
  shows "quiet (teardown s)"
proof -
  have i: "inv_hook (teardown s)" by (rule inv_hook_teardown [OF assms])
  have t: "timers (teardown s) = []"
    using inv_hook_timer [OF assms] by (simp add: teardown_timers)
  have "\<forall>j<length (sockets (teardown s)).
      \<not> attached (sockets (teardown s) ! j) \<or> sock_state (sockets (teardown s) ! j) = CLOSED"
    using inv_hook_attachedD [OF i] by fastforce
  with t show ?thesis unfolding quiet_def by simp
qed

lemma connect_fields [simp]:
  "clock (connect E s) = clock s" "shouldConnectRef (connect E s) = shouldConnectRef s"
  "connectRef (connect E s) = connectRef s" "mounted (connect E s) = mounted s"
  "liveData (connect E s) = liveData s"
  by (simp_all add: connect_def Let_def)

lemma onclose_handler_fields [simp]:
  "clock (onclose_handler s) = clock s" "ctor_calls (onclose_handler s) = ctor_calls s"
  "shouldConnectRef (onclose_handler s) = shouldConnectRef s"
  by (simp_all add: onclose_handler_def)

lemma clock_step: "clock s \<le> clock (step E e s)"
  by (cases e)
     (simp_all add: mount_effect_def timer_callback_def Let_def onopen_handler_def
        onmessage_handler_eq split: option.splits)

text \<open>Evaluation of the first mount, with a constructor that succeeds and one that throws.\<close>

lemma mount_good:
  "run good_env [Mount] initial_hook =
     \<lparr>liveData = JNull, readyState = CONNECTING, shouldConnectRef = True, wsRef = Some 0,
      reconnectTimerRef = None, connectRef = True, sockets = [new_socket], timers = [],
      clock = 0, next_timer = 1, emitted = [StateChange CONNECTING], ctor_calls = 1,
      mounted = True\<rparr>"
  by (simp add: run_def mount_effect_def connect_def initial_hook_def good_env_def
      current_live_def setReadyState_def Let_def getUrl_def APP_WS_URL_def)

lemma mount_failing:
  "run failing_env [Mount] initial_hook =
     \<lparr>liveData = JNull, readyState = CONNECTING, shouldConnectRef = True, wsRef = None,
      reconnectTimerRef = Some 1, connectRef = True, sockets = [], timers = [(1, 5000)],
      clock = 0, next_timer = 2, emitted = [StateChange CONNECTING], ctor_calls = 1,
      mounted = True\<rparr>"
  by (simp add: run_def mount_effect_def connect_def initial_hook_def failing_env_def
      current_live_def setReadyState_def Let_def getUrl_def APP_WS_URL_def
      scheduleReconnect_def RECONNECT_MS_def)

text \<open>
  C1. After every sequence of events (mounts and unmounts, timer firings, transport
  events and calls of \<^verbatim>\<open>connect\<close> from anywhere), every socket that is open or
  connecting is the one the hook's single reference names, so at most one socket is
  open or connecting; and \<^verbatim>\<open>connect\<close> does nothing when the current socket is open
  or connecting.
\<close>

theorem single_live_connection:
  "inv_live (run E es initial_hook) \<and> live_count (run E es initial_hook) \<le> 1 \<and>
   (current_live s \<longrightarrow> connect E s = s)"
proof -
  have i: "inv_live (run E es initial_hook)" by (rule inv_live_run [OF inv_live_initial])
  from i inv_live_count [OF i] show ?thesis by (simp add: connect_noop)
qed

theorem single_live_connection_witness:
  "live_count (run good_env [Mount, SockOpen 0, CallConnect, SockError 0, CallConnect]
     initial_hook) \<le> 1 \<and>
   current_live (run good_env [Mount] initial_hook) \<and>
   connect good_env (run good_env [Mount] initial_hook) = run good_env [Mount] initial_hook"
proof -
  have c: "current_live (run good_env [Mount] initial_hook)"
    by (simp add: mount_good current_live_def new_socket_def live_def)
  from single_live_connection
    [of good_env "[Mount, SockOpen 0, CallConnect, SockError 0, CallConnect]"
      "run good_env [Mount] initial_hook"] c
  show ?thesis by blast
qed

text \<open>A mounted hook is started.\<close>

lemma started_step:
  "(mounted s \<longrightarrow> shouldConnectRef s) \<Longrightarrow>
   (mounted (step E e s) \<longrightarrow> shouldConnectRef (step E e s))"
  by (cases e)
     (simp_all add: mount_effect_def timer_callback_def Let_def onopen_handler_def
        onmessage_handler_eq onclose_handler_def split: option.splits)

lemma started_run:
  "(mounted s \<longrightarrow> shouldConnectRef s) \<Longrightarrow>
   (mounted (run E es s) \<longrightarrow> shouldConnectRef (run E es s))"
  by (induction es rule: rev_induct) (simp_all add: run_snoc started_step)

text \<open>
  C7. After every sequence of events at most one reconnect timer is pending.
  \<^verbatim>\<open>scheduleReconnect\<close> does nothing while the timer reference is set; in a started
  hook with no timer pending it arms exactly one timer, due 5000 ms from now, and
  records it. The hook is started wherever \<^verbatim>\<open>scheduleReconnect\<close> is called: in
  \<^verbatim>\<open>connect\<close> behind its own test of the flag, and in the close handler because that
  handler, after any sequence of events that React and the browser produce, is only
  assigned on a socket that can still close when the hook is started. A pending timer
  does not fire before it is due; when it fires it is removed, the reference is
  cleared, and \<^verbatim>\<open>connect\<close> is called on that state, which does nothing more when
  the hook is no longer started.
\<close>

theorem single_pending_timer:
  "length (timers (run E es initial_hook)) \<le> 1 \<and>
   (reconnectTimerRef s \<noteq> None \<longrightarrow> scheduleReconnect s = s) \<and>
   (shouldConnectRef s \<and> reconnectTimerRef s = None \<longrightarrow>
      timers (scheduleReconnect s) = timers s @ [(next_timer s, clock s + 5000)] \<and>
      reconnectTimerRef (scheduleReconnect s) = Some (next_timer s)) \<and>
   (CallConnect \<notin> set es \<and>
    sock_is (run E es initial_hook) i (\<lambda>sk. sock_state sk \<noteq> CLOSED \<and> onclose sk) \<longrightarrow>
      shouldConnectRef (run E es initial_hook)) \<and>
   (map_of (timers s) t = Some due \<and> clock s < due \<longrightarrow> step E (TimerFire t) s = s) \<and>
   (inv_timer s \<and> map_of (timers s) t = Some due \<and> due \<le> clock s \<and> connectRef s \<longrightarrow>
      timers ((clearTimeout t s)\<lparr>reconnectTimerRef := None\<rparr>) = [] \<and>
      step E (TimerFire t) s = connect E ((clearTimeout t s)\<lparr>reconnectTimerRef := None\<rparr>) \<and>
      (\<not> shouldConnectRef s \<longrightarrow>
         step E (TimerFire t) s = (clearTimeout t s)\<lparr>reconnectTimerRef := None\<rparr>))"
proof (intro conjI impI)
  show "length (timers (run E es initial_hook)) \<le> 1"
    by (rule inv_timer_length [OF inv_timer_run [OF inv_timer_initial]])
next
  assume "reconnectTimerRef s \<noteq> None"
  then show "scheduleReconnect s = s" by (simp add: scheduleReconnect_def)
next
  assume a: "shouldConnectRef s \<and> reconnectTimerRef s = None"
  then show "timers (scheduleReconnect s) = timers s @ [(next_timer s, clock s + 5000)]"
    by (simp add: scheduleReconnect_def RECONNECT_MS_def)
  from a show "reconnectTimerRef (scheduleReconnect s) = Some (next_timer s)"
    by (simp add: scheduleReconnect_def)
next
  assume a: "CallConnect \<notin> set es \<and>
    sock_is (run E es initial_hook) i (\<lambda>sk. sock_state sk \<noteq> CLOSED \<and> onclose sk)"
  let ?r = "run E es initial_hook"
  from a have inv: "inv_hook ?r" by (simp add: inv_hook_run [OF inv_hook_initial])
  from a have i: "i < length (sockets ?r)" and nc: "sock_state (sockets ?r ! i) \<noteq> CLOSED"
    and at: "attached (sockets ?r ! i)"
    by (simp_all add: sock_is_def attached_def)
  from inv_hook_attachedD [OF inv i at nc] have "wsRef ?r = Some i" .
  with inv_hook_mountedD [OF inv] have "mounted ?r" by auto
  moreover have "mounted ?r \<longrightarrow> shouldConnectRef ?r"
    by (rule started_run) (simp add: initial_hook_def)
  ultimately show "shouldConnectRef ?r" by blast
next
  assume "map_of (timers s) t = Some due \<and> clock s < due"
  then show "step E (TimerFire t) s = s" by simp
next
  assume a: "inv_timer s \<and> map_of (timers s) t = Some due \<and> due \<le> clock s \<and> connectRef s"
  then have f: "timers (clearTimeout t s) = []" using inv_timer_fire [of s t due] by blast
  then show "timers ((clearTimeout t s)\<lparr>reconnectTimerRef := None\<rparr>) = []" by simp
  from a show st: "step E (TimerFire t) s =
      connect E ((clearTimeout t s)\<lparr>reconnectTimerRef := None\<rparr>)"
    by (simp add: timer_callback_def Let_def)
  { assume "\<not> shouldConnectRef s"
    then show "step E (TimerFire t) s = (clearTimeout t s)\<lparr>reconnectTimerRef := None\<rparr>"
      unfolding st by (simp add: connect_noop) }
qed

theorem single_pending_timer_witness:
  "length (timers (run failing_env [Mount, CallConnect, Advance 5000, TimerFire 1]
     initial_hook)) \<le> 1 \<and>
   reconnectTimerRef (run failing_env [Mount] initial_hook) \<noteq> None \<and>
   scheduleReconnect (run failing_env [Mount] initial_hook) = run failing_env [Mount] initial_hook \<and>
   shouldConnectRef initial_hook \<and> reconnectTimerRef initial_hook = None \<and>
   timers (scheduleReconnect initial_hook) = [(1, 5000)] \<and>
   CallConnect \<notin> set [Mount] \<and>
   sock_is (run good_env [Mount] initial_hook) 0 (\<lambda>sk. sock_state sk \<noteq> CLOSED \<and> onclose sk) \<and>
   shouldConnectRef (run good_env [Mount] initial_hook) \<and>
   map_of (timers (run failing_env [Mount] initial_hook)) 1 = Some 5000 \<and>
   step failing_env (TimerFire 1) (run failing_env [Mount] initial_hook) =
     run failing_env [Mount] initial_hook \<and>
   step failing_env (TimerFire 1) (run failing_env [Mount, Advance 5000, Unmount] initial_hook) =
     run failing_env [Mount, Advance 5000, Unmount] initial_hook \<and>
   step failing_env (TimerFire 1)
     ((run failing_env [Mount, Advance 5000] initial_hook)\<lparr>shouldConnectRef := False\<rparr>) =
     (clearTimeout 1 ((run failing_env [Mount, Advance 5000] initial_hook)
        \<lparr>shouldConnectRef := False\<rparr>))\<lparr>reconnectTimerRef := None\<rparr>"
proof -
  let ?s1 = "run failing_env [Mount] initial_hook"
  let ?s2 = "(run failing_env [Mount, Advance 5000] initial_hook)\<lparr>shouldConnectRef := False\<rparr>"
  have s2: "run failing_env [Mount, Advance 5000] initial_hook = ?s1\<lparr>clock := 5000\<rparr>"
    using run_snoc [of failing_env "[Mount]" "Advance 5000" initial_hook]
    by (simp add: mount_failing)
  have 1: "reconnectTimerRef ?s1 \<noteq> None" by (simp add: mount_failing)
  have 2: "shouldConnectRef initial_hook \<and> reconnectTimerRef initial_hook = None"
    by (simp add: initial_hook_def)
  have 3: "map_of (timers ?s1) 1 = Some 5000 \<and> clock ?s1 < 5000" by (simp add: mount_failing)
  have 4: "inv_timer ?s2 \<and> map_of (timers ?s2) 1 = Some 5000 \<and> 5000 \<le> clock ?s2 \<and>
           connectRef ?s2 \<and> \<not> shouldConnectRef ?s2"
    by (simp add: s2 mount_failing inv_timer_def)
  have 5: "step failing_env (TimerFire 1)
             (run failing_env [Mount, Advance 5000, Unmount] initial_hook) =
           run failing_env [Mount, Advance 5000, Unmount] initial_hook"
    using run_snoc [of failing_env "[Mount, Advance 5000]" Unmount initial_hook]
    by (simp add: s2 mount_failing teardown_def cleanupSocket_def Let_def clearTimeout_def)
  have 6: "timers (scheduleReconnect initial_hook) = timers initial_hook @
             [(next_timer initial_hook, clock initial_hook + 5000)]"
    using single_pending_timer [of failing_env "[]" initial_hook 0 1 5000] 2 by blast
  have 7: "CallConnect \<notin> set [Mount] \<and>
     sock_is (run good_env [Mount] initial_hook) 0 (\<lambda>sk. sock_state sk \<noteq> CLOSED \<and> onclose sk)"
    by (simp add: mount_good sock_is_def new_socket_def)
  have 8: "shouldConnectRef (run good_env [Mount] initial_hook)"
    using single_pending_timer [of good_env "[Mount]" initial_hook 0 1 5000] 7 by blast
  from single_pending_timer
    [of failing_env "[Mount, CallConnect, Advance 5000, TimerFire 1]" ?s1 0 1 5000] 1 3
  have a: "length (timers (run failing_env [Mount, CallConnect, Advance 5000, TimerFire 1]
     initial_hook)) \<le> 1" and b: "scheduleReconnect ?s1 = ?s1"
    and c: "step failing_env (TimerFire 1) ?s1 = ?s1"
    by blast+
  from single_pending_timer [of failing_env "[]" ?s2 0 1 5000] 4
  have d: "step failing_env (TimerFire 1) ?s2 = (clearTimeout 1 ?s2)\<lparr>reconnectTimerRef := None\<rparr>"
    by blast
  have e: "timers (scheduleReconnect initial_hook) = [(1, 5000)]"
    using 6 by (simp add: initial_hook_def)
  from a 1 b 2 e 7 8 3 c 5 d show ?thesis by blast
qed

text \<open>
  While one timer due at \<open>D\<close> is pending, or the hook has been torn down, nothing but a
  mount or a call of \<^verbatim>\<open>connect\<close> from outside constructs a socket before \<open>D\<close>.
\<close>

lemma waiting_step:
  assumes c: "ctor_calls s = n"
    and w: "(timers s = [(t0, D)] \<and> reconnectTimerRef s = Some t0) \<or>
            (timers s = [] \<and> \<not> shouldConnectRef s)"
    and e: "e \<noteq> Mount" "e \<noteq> CallConnect"
    and d: "clock (step E e s) < D"
  shows "ctor_calls (step E e s) = n \<and>
         ((timers (step E e s) = [(t0, D)] \<and> reconnectTimerRef (step E e s) = Some t0) \<or>
          (timers (step E e s) = [] \<and> \<not> shouldConnectRef (step E e s)))"
proof -
  have sr: "\<And>u. reconnectTimerRef u = reconnectTimerRef s \<Longrightarrow>
                shouldConnectRef u = shouldConnectRef s \<Longrightarrow> scheduleReconnect u = u"
    using w by (auto simp: scheduleReconnect_def)
  have oc: "\<And>u. reconnectTimerRef u = reconnectTimerRef s \<Longrightarrow>
                shouldConnectRef u = shouldConnectRef s \<Longrightarrow>
                onclose_handler u = setReadyState CLOSED u"
    by (simp add: onclose_handler_def sr)
  show ?thesis
  proof (cases e)
    case Mount
    with e show ?thesis by simp
  next
    case CallConnect
    with e show ?thesis by simp
  next
    case Unmount
    have "timers s = [] \<or> inv_timer s" using w by (auto simp: inv_timer_def)
    then have "timers (teardown s) = []" by (rule teardown_timers)
    then show ?thesis using c by (simp add: Unmount)
  next
    case (Advance k)
    then show ?thesis using c w by simp
  next
    case (TimerFire t)
    show ?thesis
    proof (cases "map_of (timers s) t")
      case None
      then show ?thesis using c w by (simp add: TimerFire)
    next
      case (Some due)
      then have due: "due = D" using w by (auto split: if_splits)
      have "\<not> due \<le> clock s"
      proof
        assume a: "due \<le> clock s"
        then have "clock (step E e s) = clock s"
          using Some by (simp add: TimerFire timer_callback_def Let_def)
        with d a due show False by simp
      qed
      then show ?thesis using Some c w by (simp add: TimerFire)
    qed
  next
    case (SockOpen i)
    then show ?thesis using c w by (simp add: Let_def onopen_handler_def)
  next
    case (SockMessage i p)
    then show ?thesis using c w by (simp add: onmessage_handler_eq)
  next
    case (SockError i)
    then show ?thesis using c w by simp
  next
    case (SockClosing i)
    then show ?thesis using c w by simp
  next
    case (SockClose i)
    then show ?thesis using c w by (simp add: Let_def oc)
  next
    case (SockFail i)
    then show ?thesis using c w by (simp add: Let_def oc)
  qed
qed

lemma waiting_run:
  assumes c: "ctor_calls s = n"
    and w: "(timers s = [(t0, D)] \<and> reconnectTimerRef s = Some t0) \<or>
            (timers s = [] \<and> \<not> shouldConnectRef s)"
  shows "Mount \<notin> set es \<Longrightarrow> CallConnect \<notin> set es \<Longrightarrow> clock (run E es s) < D \<Longrightarrow>
         ctor_calls (run E es s) = n \<and>
         ((timers (run E es s) = [(t0, D)] \<and> reconnectTimerRef (run E es s) = Some t0) \<or>
          (timers (run E es s) = [] \<and> \<not> shouldConnectRef (run E es s)))"
proof (induction es rule: rev_induct)
  case Nil
  then show ?case using c w by simp
next
  case (snoc e es)
  have "clock (run E es s) \<le> clock (step E e (run E es s))" by (rule clock_step)
  with snoc.prems(3) have "clock (run E es s) < D" by (simp add: run_snoc)
  with snoc have ih: "ctor_calls (run E es s) = n"
    "(timers (run E es s) = [(t0, D)] \<and> reconnectTimerRef (run E es s) = Some t0) \<or>
     (timers (run E es s) = [] \<and> \<not> shouldConnectRef (run E es s))"
    by simp_all
  from snoc.prems have e: "e \<noteq> Mount" "e \<noteq> CallConnect" by auto
  from snoc.prems(3) have d: "clock (step E e (run E es s)) < D" by (simp add: run_snoc)
  from waiting_step [OF ih e d] show ?case by (simp add: run_snoc)
qed

text \<open>
  C8. When \<^verbatim>\<open>connect\<close> runs in a started hook whose current socket is not open or
  connecting and the constructor throws: the state shown is \<^verbatim>\<open>CONNECTING\<close>, no socket
  is created, the call returns a state (nothing is rethrown), one constructor call was
  made, and exactly one timer is pending afterwards. If none was pending before, the
  pending one is due 5000 ms later; until then no sequence of events without a new
  mount or an outside call of \<^verbatim>\<open>connect\<close> makes another constructor call, and when
  the timer fires at its due time the constructor is called again.
\<close>

theorem constructor_failure_recovered:
  assumes "shouldConnectRef s" and "\<not> current_live s"
    and "ctor_throws E (fst (getUrl (urlOverride E) (env_window E)))"
    and "inv_timer s"
  shows "readyState (connect E s) = CONNECTING \<and>
         emitted (connect E s) = emitted s @ [StateChange CONNECTING] \<and>
         sockets (connect E s) = sockets s \<and> wsRef (connect E s) = wsRef s \<and>
         ctor_calls (connect E s) = Suc (ctor_calls s) \<and>
         length (timers (connect E s)) = 1 \<and>
         (reconnectTimerRef s = None \<longrightarrow>
            timers (connect E s) = [(next_timer s, clock s + 5000)] \<and>
            (\<forall>es. Mount \<notin> set es \<and> CallConnect \<notin> set es \<and>
                  clock (run E es (connect E s)) < clock s + 5000 \<longrightarrow>
                  ctor_calls (run E es (connect E s)) = Suc (ctor_calls s)) \<and>
            (connectRef s \<longrightarrow>
               ctor_calls (run E [Advance 5000, TimerFire (next_timer s)] (connect E s)) =
                 Suc (Suc (ctor_calls s))))"
proof -
  let ?b = "(setReadyState CONNECTING s)\<lparr>ctor_calls := Suc (ctor_calls s)\<rparr>"
  have e: "connect E s = scheduleReconnect ?b" by (rule connect_throws [OF assms(1-3)])
  have 1: "readyState (connect E s) = CONNECTING"
    "emitted (connect E s) = emitted s @ [StateChange CONNECTING]"
    "sockets (connect E s) = sockets s" "wsRef (connect E s) = wsRef s"
    "ctor_calls (connect E s) = Suc (ctor_calls s)"
    by (simp_all add: e) (simp_all add: setReadyState_def)
  have l: "length (timers (connect E s)) = 1"
  proof (cases "reconnectTimerRef s")
    case None
    then have "timers s = []" using assms(4) by (simp add: inv_timer_def)
    with None assms(1) show ?thesis by (simp add: e scheduleReconnect_def)
  next
    case (Some t)
    then have "length (map fst (timers s)) = 1" using assms(4) by (simp add: inv_timer_def)
    with Some show ?thesis by (simp add: e scheduleReconnect_def)
  qed
  have 2: "reconnectTimerRef s = None \<longrightarrow>
            timers (connect E s) = [(next_timer s, clock s + 5000)] \<and>
            (\<forall>es. Mount \<notin> set es \<and> CallConnect \<notin> set es \<and>
                  clock (run E es (connect E s)) < clock s + 5000 \<longrightarrow>
                  ctor_calls (run E es (connect E s)) = Suc (ctor_calls s)) \<and>
            (connectRef s \<longrightarrow>
               ctor_calls (run E [Advance 5000, TimerFire (next_timer s)] (connect E s)) =
                 Suc (Suc (ctor_calls s)))"
  proof (intro impI conjI allI)
    assume n: "reconnectTimerRef s = None"
    then have ts: "timers s = []" using assms(4) by (simp add: inv_timer_def)
    show t: "timers (connect E s) = [(next_timer s, clock s + 5000)]"
      using n ts assms(1) by (simp add: e scheduleReconnect_def RECONNECT_MS_def)
    have r: "reconnectTimerRef (connect E s) = Some (next_timer s)"
      using n assms(1) by (simp add: e scheduleReconnect_def)
    { fix es
      assume a: "Mount \<notin> set es \<and> CallConnect \<notin> set es \<and>
                 clock (run E es (connect E s)) < clock s + 5000"
      from waiting_run [OF 1(5), of "next_timer s" "clock s + 5000" es E] t r a
      show "ctor_calls (run E es (connect E s)) = Suc (ctor_calls s)" by blast }
    { assume cr: "connectRef s"
      let ?u = "(connect E s)\<lparr>clock := clock s + 5000\<rparr>"
      let ?v = "(clearTimeout (next_timer s) ?u)\<lparr>reconnectTimerRef := None\<rparr>"
      have cl: "\<not> current_live ?v"
        using assms(2) by (simp add: current_live_def 1 split: option.splits)
      have sc: "shouldConnectRef ?v" using assms(1) by simp
      have "run E [Advance 5000, TimerFire (next_timer s)] (connect E s) =
            step E (TimerFire (next_timer s)) ?u"
        by (simp add: run_def)
      also have "\<dots> = connect E ?v"
        using cr by (simp add: t timer_callback_def Let_def)
      also have "ctor_calls \<dots> = Suc (Suc (ctor_calls s))"
        by (simp add: connect_throws [OF sc cl assms(3)] 1)
      finally show "ctor_calls (run E [Advance 5000, TimerFire (next_timer s)] (connect E s)) =
                 Suc (Suc (ctor_calls s))" . }
  qed
  from 1 l 2 show ?thesis by blast
qed

theorem constructor_failure_recovered_witness:
  "shouldConnectRef (initial_hook\<lparr>connectRef := True, mounted := True\<rparr>) \<and>
   \<not> current_live (initial_hook\<lparr>connectRef := True, mounted := True\<rparr>) \<and>
   ctor_throws failing_env (fst (getUrl (urlOverride failing_env) (env_window failing_env))) \<and>
   inv_timer (initial_hook\<lparr>connectRef := True, mounted := True\<rparr>) \<and>
   readyState (connect failing_env (initial_hook\<lparr>connectRef := True, mounted := True\<rparr>)) =
     CONNECTING \<and>
   timers (connect failing_env (initial_hook\<lparr>connectRef := True, mounted := True\<rparr>)) =
     [(1, 5000)] \<and>
   ctor_calls (run failing_env [Advance 4999, TimerFire 1, SockClose 0]
      (connect failing_env (initial_hook\<lparr>connectRef := True, mounted := True\<rparr>))) = 1 \<and>
   ctor_calls (run failing_env [Advance 5000, TimerFire 1]
      (connect failing_env (initial_hook\<lparr>connectRef := True, mounted := True\<rparr>))) = 2"
proof -
  let ?s = "initial_hook\<lparr>connectRef := True, mounted := True\<rparr>"
  let ?es = "[Advance 4999, TimerFire 1, SockClose 0]"
  have a: "shouldConnectRef ?s" "\<not> current_live ?s" "inv_timer ?s"
    "ctor_throws failing_env (fst (getUrl (urlOverride failing_env) (env_window failing_env)))"
    by (simp_all add: initial_hook_def current_live_def inv_timer_def failing_env_def)
  have n: "reconnectTimerRef ?s = None" "connectRef ?s" "next_timer ?s = 1" "clock ?s = 0"
    "ctor_calls ?s = 0"
    by (simp_all add: initial_hook_def)
  have m: "Mount \<notin> set ?es \<and> CallConnect \<notin> set ?es" by simp
  have c0: "connect failing_env ?s =
     \<lparr>liveData = JNull, readyState = CONNECTING, shouldConnectRef = True, wsRef = None,
      reconnectTimerRef = Some 1, connectRef = True, sockets = [], timers = [(1, 5000)],
      clock = 0, next_timer = 2, emitted = [StateChange CONNECTING], ctor_calls = 1,
      mounted = True\<rparr>"
    by (simp add: connect_def initial_hook_def failing_env_def current_live_def
        setReadyState_def Let_def getUrl_def APP_WS_URL_def scheduleReconnect_def
        RECONNECT_MS_def)
  have k: "clock (run failing_env ?es (connect failing_env ?s)) = 4999"
    unfolding c0 by (simp add: run_def sock_is_def)
  from constructor_failure_recovered [OF a(1,2,4,3)] n m k
  have "readyState (connect failing_env ?s) = CONNECTING \<and>
        timers (connect failing_env ?s) = [(1, 5000)] \<and>
        ctor_calls (run failing_env ?es (connect failing_env ?s)) = 1 \<and>
        ctor_calls (run failing_env [Advance 5000, TimerFire 1] (connect failing_env ?s)) = 2"
    by simp
  with a show ?thesis by blast
qed

text \<open>
  C2. Let the hook run through any sequence of events that React and the browser
  produce (no call of \<^verbatim>\<open>connect\<close> from outside the hook), then be torn down, then go
  through any sequence of events without a new mount. Teardown itself emits nothing,
  leaves no timer pending and no reference, and leaves the socket that was current
  without any of its four handlers and neither open nor connecting. After it nothing
  is emitted any more: the setter calls, the delivered value, the shown state and the
  number of constructor calls stay what they were, and no timer is pending, so none
  fires. Teardown of a torn-down hook changes nothing, and teardown of a hook that
  never connected only clears the started flag.
\<close>

theorem teardown_is_final:
  assumes "CallConnect \<notin> set es" and "Mount \<notin> set es'"
  shows "emitted (step E Unmount (run E es initial_hook)) = emitted (run E es initial_hook) \<and>
         timers (step E Unmount (run E es initial_hook)) = [] \<and>
         reconnectTimerRef (step E Unmount (run E es initial_hook)) = None \<and>
         wsRef (step E Unmount (run E es initial_hook)) = None \<and>
         (\<forall>i. wsRef (run E es initial_hook) = Some i \<longrightarrow>
            \<not> attached (sockets (step E Unmount (run E es initial_hook)) ! i) \<and>
            \<not> live (sockets (step E Unmount (run E es initial_hook)) ! i)) \<and>
         emitted (run E es' (step E Unmount (run E es initial_hook))) =
           emitted (run E es initial_hook) \<and>
         liveData (run E es' (step E Unmount (run E es initial_hook))) =
           liveData (run E es initial_hook) \<and>
         readyState (run E es' (step E Unmount (run E es initial_hook))) =
           readyState (run E es initial_hook) \<and>
         ctor_calls (run E es' (step E Unmount (run E es initial_hook))) =
           ctor_calls (run E es initial_hook) \<and>
         timers (run E es' (step E Unmount (run E es initial_hook))) = [] \<and>
         step E Unmount (step E Unmount (run E es initial_hook)) =
           step E Unmount (run E es initial_hook) \<and>
         step E Unmount initial_hook = initial_hook\<lparr>shouldConnectRef := False\<rparr>"
proof -
  define s where "s = run E es initial_hook"
  define t where "t = step E Unmount s"
  have t: "t = teardown s" by (simp add: t_def)
  have inv: "inv_hook s"
    unfolding s_def by (rule inv_hook_run [OF inv_hook_initial assms(1)])
  have q: "quiet t" unfolding t by (rule inv_hook_quiet_teardown [OF inv])
  have 1: "emitted t = emitted s" "reconnectTimerRef t = None" "wsRef t = None"
    by (simp_all add: t)
  have 2: "timers t = []" using q by (simp add: quiet_def)
  have 3: "\<forall>i. wsRef s = Some i \<longrightarrow> \<not> attached (sockets t ! i) \<and> \<not> live (sockets t ! i)"
  proof (intro allI impI)
    fix i assume w: "wsRef s = Some i"
    then have "i < length (sockets s)" by (rule inv_hook_refD [OF inv])
    then show "\<not> attached (sockets t ! i) \<and> \<not> live (sockets t ! i)"
      using w by (simp add: t teardown_sockets attached_def live_def)
  qed
  from quiet_run [OF q assms(2), of E]
  have 4: "emitted (run E es' t) = emitted s" "liveData (run E es' t) = liveData s"
    "readyState (run E es' t) = readyState s" "ctor_calls (run E es' t) = ctor_calls s"
    "timers (run E es' t) = []"
    by (simp_all add: quiet_def) (simp_all add: t)
  have 5: "step E Unmount t = t" by (simp add: t teardown_idem)
  have 6: "step E Unmount initial_hook = initial_hook\<lparr>shouldConnectRef := False\<rparr>"
    by (simp add: teardown_def cleanupSocket_def initial_hook_def)
  from 1 2 3 4 5 6 show ?thesis unfolding t_def s_def by blast
qed

theorem teardown_is_final_witness:
  "CallConnect \<notin> set [Mount] \<and>
   Mount \<notin> set [Advance 5000, TimerFire 1, CallConnect, SockClose 0] \<and>
   timers (run failing_env [Mount] initial_hook) = [(1, 5000)] \<and>
   timers (step failing_env Unmount (run failing_env [Mount] initial_hook)) = [] \<and>
   emitted (run failing_env [Advance 5000, TimerFire 1, CallConnect, SockClose 0]
      (step failing_env Unmount (run failing_env [Mount] initial_hook))) =
     [StateChange CONNECTING] \<and>
   ctor_calls (run failing_env [Advance 5000, TimerFire 1, CallConnect, SockClose 0]
      (step failing_env Unmount (run failing_env [Mount] initial_hook))) = 1 \<and>
   wsRef (run good_env [Mount] initial_hook) = Some 0 \<and>
   \<not> attached (sockets (step good_env Unmount (run good_env [Mount] initial_hook)) ! 0) \<and>
   \<not> live (sockets (step good_env Unmount (run good_env [Mount] initial_hook)) ! 0) \<and>
   emitted (run good_env [SockClose 0, SockFail 0]
      (step good_env Unmount (run good_env [Mount] initial_hook))) = [StateChange CONNECTING]"
proof -
  let ?es' = "[Advance 5000, TimerFire 1, CallConnect, SockClose 0]"
  have a: "CallConnect \<notin> set [Mount]" "Mount \<notin> set ?es'" "Mount \<notin> set [SockClose 0, SockFail 0]"
    by simp_all
  have p: "timers (run failing_env [Mount] initial_hook) = [(1, 5000)]"
    "emitted (run failing_env [Mount] initial_hook) = [StateChange CONNECTING]"
    "ctor_calls (run failing_env [Mount] initial_hook) = 1"
    by (simp_all add: mount_failing)
  have g: "wsRef (run good_env [Mount] initial_hook) = Some 0"
    "emitted (run good_env [Mount] initial_hook) = [StateChange CONNECTING]"
    by (simp_all add: mount_good)
  from teardown_is_final [OF a(1,2), of failing_env] p
  have 1: "timers (step failing_env Unmount (run failing_env [Mount] initial_hook)) = [] \<and>
    emitted (run failing_env ?es'
      (step failing_env Unmount (run failing_env [Mount] initial_hook))) =
     [StateChange CONNECTING] \<and>
    ctor_calls (run failing_env ?es'
      (step failing_env Unmount (run failing_env [Mount] initial_hook))) = 1"
    by simp
  from teardown_is_final [OF a(1,3), of good_env] g
  have 2: "\<not> attached (sockets (step good_env Unmount (run good_env [Mount] initial_hook)) ! 0) \<and>
   \<not> live (sockets (step good_env Unmount (run good_env [Mount] initial_hook)) ! 0) \<and>
   emitted (run good_env [SockClose 0, SockFail 0]
      (step good_env Unmount (run good_env [Mount] initial_hook))) = [StateChange CONNECTING]"
    by simp
  from a p g 1 2 show ?thesis by blast
qed

text \<open>
  C6. When \<^verbatim>\<open>JSON.parse\<close> throws on the payload of a frame, the message handler
  catches the exception and delivers the raw \<^verbatim>\<open>event.data\<close> as it is: the handler
  returns a state in which \<^verbatim>\<open>liveData\<close> is the raw value and one message was emitted,
  and the frame event on an open socket with the handler assigned does exactly this.
  The raw value, a string or a blob, has no \<^verbatim>\<open>z_score\<close>: it does not pass the guard of
  the update effect, and the effect leaves snapshot, previous snapshot and history as
  they are.
\<close>

theorem malformed_payload_passthrough:
  assumes "json_parse E (payload_text d) = None"
  shows "try_parse E d s = Inl SyntaxError \<and>
         onmessage_handler E d s = setLiveData (payload_raw d) s \<and>
         liveData (onmessage_handler E d s) = payload_raw d \<and>
         emitted (onmessage_handler E d s) = emitted s @ [Message (payload_raw d)] \<and>
         (sock_is s i (\<lambda>sk. sock_state sk = OPEN) \<and> onmessage (sockets s ! i) \<longrightarrow>
            step E (SockMessage i d) s = setLiveData (payload_raw d) s) \<and>
         \<not> accepted (payload_raw d) \<and>
         update_effect now (payload_raw d) st = Inr st"
proof -
  have 1: "try_parse E d s = Inl SyntaxError" using assms by (simp add: try_parse_def)
  have 2: "onmessage_handler E d s = setLiveData (payload_raw d) s"
    using assms by (simp add: onmessage_handler_eq)
  have 3: "liveData (setLiveData (payload_raw d) s) = payload_raw d"
    "emitted (setLiveData (payload_raw d) s) = emitted s @ [Message (payload_raw d)]"
    by (simp_all add: setLiveData_def)
  have 4: "\<not> accepted (payload_raw d)" by (cases d) (simp_all add: accepted_def)
  have 5: "update_effect now (payload_raw d) st = Inr st"
    by (rule update_effect_rejected [OF 4])
  from 1 2 3 4 5 show ?thesis by simp
qed

theorem malformed_payload_passthrough_witness:
  "json_parse good_env (payload_text (Text ''not json'')) = None \<and>
   sock_is (run good_env [Mount, SockOpen 0] initial_hook) 0 (\<lambda>sk. sock_state sk = OPEN) \<and>
   onmessage (sockets (run good_env [Mount, SockOpen 0] initial_hook) ! 0) \<and>
   liveData (step good_env (SockMessage 0 (Text ''not json''))
      (run good_env [Mount, SockOpen 0] initial_hook)) = JStr ''not json'' \<and>
   update_effect ''12:00:00'' (JStr ''not json'') initial_app = Inr initial_app"
proof -
  let ?s = "run good_env [Mount, SockOpen 0] initial_hook"
  let ?d = "Text ''not json''"
  have p: "json_parse good_env (payload_text ?d) = None" by (simp add: good_env_def)
  have s: "?s = onopen_handler (set_sock_state 0 OPEN (run good_env [Mount] initial_hook))"
    using run_snoc [of good_env "[Mount]" "SockOpen 0" initial_hook]
    by (simp add: mount_good sock_is_def new_socket_def Let_def set_sock_state_def)
  have o: "sock_is ?s 0 (\<lambda>sk. sock_state sk = OPEN)" "onmessage (sockets ?s ! 0)"
    unfolding s
    by (simp_all add: mount_good sock_is_def onopen_handler_def set_sock_state_def new_socket_def)
  from malformed_payload_passthrough [OF p, of ?s 0 "''12:00:00''" initial_app] o
  have "step good_env (SockMessage 0 ?d) ?s = setLiveData (payload_raw ?d) ?s \<and>
        update_effect ''12:00:00'' (payload_raw ?d) initial_app = Inr initial_app"
    by blast
  then have "liveData (step good_env (SockMessage 0 ?d) ?s) = JStr ''not json'' \<and>
        update_effect ''12:00:00'' (JStr ''not json'') initial_app = Inr initial_app"
    by (simp add: setLiveData_def)
  with p o show ?thesis by blast
qed

section \<open>Properties of URL resolution\<close>

text \<open>
  C9, as stated, fails: with no override argument, a page that sets
  \<^verbatim>\<open>window.__WS_PORT__\<close> gets that port instead of 8000, and a page that sets
  \<^verbatim>\<open>window.__WS_URL__\<close> gets that URL instead of one derived from its location.
\<close>

theorem url_port_8000_counterexample:
  "getUrl JUndefined
     (Some \<lparr>WS_URL = None, WS_PORT = Some ''9000'',
            location = Some \<lparr>protocol = ''http:'', hostname = ''example.com''\<rparr>\<rparr>) =
     (''ws://example.com:9000/ws/live-analytics'', []) \<and>
   ''ws://example.com:9000/ws/live-analytics'' \<noteq> ''ws://example.com:8000/ws/live-analytics'' \<and>
   getUrl JUndefined
     (Some \<lparr>WS_URL = Some ''wss://feed.example.org/stream'', WS_PORT = None,
            location = Some \<lparr>protocol = ''http:'', hostname = ''example.com''\<rparr>\<rparr>) =
     (''wss://feed.example.org/stream'', []) \<and>
   ''wss://feed.example.org/stream'' \<noteq> ''ws://example.com:8000/ws/live-analytics''"
  by (simp add: getUrl_def buildDefaultUrl_def buildDefaultUrl_try_def str_or_def
      DEFAULT_PATH_def)

text \<open>
  C9, amended. An override argument that is a non-empty string is the URL. Otherwise
  (the argument is not a string, or is the empty string) the URL is that of
  \<^verbatim>\<open>buildDefaultUrl\<close>: with no \<^verbatim>\<open>window\<close> it is
  \<^verbatim>\<open>ws://localhost:8000/ws/live-analytics\<close>; a non-empty \<^verbatim>\<open>window.__WS_URL__\<close> is used
  as it is; otherwise the URL is scheme, \<^verbatim>\<open>//\<close>, host, \<^verbatim>\<open>:\<close>, port and
  \<^verbatim>\<open>/ws/live-analytics\<close>, where the scheme is \<^verbatim>\<open>wss:\<close> if and only if the page's
  protocol is \<^verbatim>\<open>https:\<close>, the host is the page's host name, or \<^verbatim>\<open>localhost\<close> when that
  is empty, and the port is a non-empty \<^verbatim>\<open>window.__WS_PORT__\<close>, or 8000. Nothing is
  thrown: when reading the location throws, the error is logged and the URL is
  \<^verbatim>\<open>ws://localhost:8000/ws/live-analytics\<close>; in every other case nothing is logged.
\<close>

theorem url_resolution:
  "(u \<noteq> [] \<longrightarrow> getUrl (JStr u) w = (u, [])) \<and>
   ((\<forall>u. ov = JStr u \<longrightarrow> u = []) \<longrightarrow> getUrl ov w = buildDefaultUrl w) \<and>
   buildDefaultUrl None = (''ws://localhost:8000/ws/live-analytics'', []) \<and>
   (WS_URL win = Some x \<and> x \<noteq> [] \<longrightarrow> buildDefaultUrl (Some win) = (x, [])) \<and>
   (str_or (WS_URL win) [] = [] \<and> location win = Some loc \<longrightarrow>
      buildDefaultUrl (Some win) =
        ((if protocol loc = ''https:'' then ''wss:'' else ''ws:'') @ ''//'' @
         (if hostname loc = [] then ''localhost'' else hostname loc) @ '':'' @
         str_or (WS_PORT win) ''8000'' @ ''/ws/live-analytics'', [])) \<and>
   (str_or (WS_URL win) [] = [] \<and> str_or (WS_PORT win) [] = [] \<and> location win = Some loc \<longrightarrow>
      buildDefaultUrl (Some win) =
        ((if protocol loc = ''https:'' then ''wss:'' else ''ws:'') @ ''//'' @
         (if hostname loc = [] then ''localhost'' else hostname loc) @
         '':8000/ws/live-analytics'', [])) \<and>
   (str_or (WS_URL win) [] = [] \<and> location win = None \<longrightarrow>
      buildDefaultUrl_try (Some win) = Inl TypeError \<and>
      buildDefaultUrl (Some win) =
        (''ws://localhost:8000/ws/live-analytics'', [''Error building default WS URL:'']))"
proof (intro conjI impI)
  assume "u \<noteq> []"
  then show "getUrl (JStr u) w = (u, [])" by (simp add: getUrl_def)
next
  assume "\<forall>u. ov = JStr u \<longrightarrow> u = []"
  then show "getUrl ov w = buildDefaultUrl w" by (cases ov) (simp_all add: getUrl_def)
next
  show "buildDefaultUrl None = (''ws://localhost:8000/ws/live-analytics'', [])"
    by (simp add: buildDefaultUrl_def buildDefaultUrl_try_def fallback_url_def
        DEFAULT_BACKEND_PORT_def DEFAULT_PATH_def)
next
  assume "WS_URL win = Some x \<and> x \<noteq> []"
  then show "buildDefaultUrl (Some win) = (x, [])"
    by (simp add: buildDefaultUrl_def buildDefaultUrl_try_def str_or_def)
next
  assume "str_or (WS_URL win) [] = [] \<and> location win = Some loc"
  then show "buildDefaultUrl (Some win) =
        ((if protocol loc = ''https:'' then ''wss:'' else ''ws:'') @ ''//'' @
         (if hostname loc = [] then ''localhost'' else hostname loc) @ '':'' @
         str_or (WS_PORT win) ''8000'' @ ''/ws/live-analytics'', [])"
    by (simp add: buildDefaultUrl_def buildDefaultUrl_try_def Let_def
        DEFAULT_BACKEND_PORT_def DEFAULT_PATH_def)
next
  assume a: "str_or (WS_URL win) [] = [] \<and> str_or (WS_PORT win) [] = [] \<and>
             location win = Some loc"
  then have "str_or (WS_PORT win) ''8000'' = ''8000''"
    by (auto simp: str_or_def split: option.splits if_splits)
  with a show "buildDefaultUrl (Some win) =
        ((if protocol loc = ''https:'' then ''wss:'' else ''ws:'') @ ''//'' @
         (if hostname loc = [] then ''localhost'' else hostname loc) @
         '':8000/ws/live-analytics'', [])"
    by (simp add: buildDefaultUrl_def buildDefaultUrl_try_def Let_def
        DEFAULT_BACKEND_PORT_def DEFAULT_PATH_def)
next
  assume a: "str_or (WS_URL win) [] = [] \<and> location win = None"
  then show "buildDefaultUrl_try (Some win) = Inl TypeError"
    by (simp add: buildDefaultUrl_try_def Let_def)
  from a show "buildDefaultUrl (Some win) =
        (''ws://localhost:8000/ws/live-analytics'', [''Error building default WS URL:''])"
    by (simp add: buildDefaultUrl_def buildDefaultUrl_try_def Let_def fallback_url_def
        DEFAULT_BACKEND_PORT_def DEFAULT_PATH_def)
qed

theorem url_resolution_witness:
  "getUrl (JStr ''ws://localhost:8000/ws/live-analytics'') None =
     (''ws://localhost:8000/ws/live-analytics'', []) \<and>
   getUrl JUndefined
     (Some \<lparr>WS_URL = None, WS_PORT = None,
            location = Some \<lparr>protocol = ''https:'', hostname = ''example.com''\<rparr>\<rparr>) =
     (''wss://example.com:8000/ws/live-analytics'', []) \<and>
   getUrl (JStr '''')
     (Some \<lparr>WS_URL = Some ''wss://feed.example.org/stream'', WS_PORT = None,
            location = None\<rparr>) = (''wss://feed.example.org/stream'', []) \<and>
   getUrl JNull (Some \<lparr>WS_URL = None, WS_PORT = Some ''9000'', location = None\<rparr>) =
     (''ws://localhost:8000/ws/live-analytics'', [''Error building default WS URL:''])"
proof -
  let ?w1 = "\<lparr>WS_URL = None, WS_PORT = None,
            location = Some \<lparr>protocol = ''https:'', hostname = ''example.com''\<rparr>\<rparr>"
  let ?l1 = "\<lparr>protocol = ''https:'', hostname = ''example.com''\<rparr>"
  let ?w2 = "\<lparr>WS_URL = Some ''wss://feed.example.org/stream'', WS_PORT = None,
            location = None\<rparr>"
  let ?w3 = "\<lparr>WS_URL = None, WS_PORT = Some ''9000'', location = None\<rparr>"
  have 1: "getUrl (JStr ''ws://localhost:8000/ws/live-analytics'') None =
     (''ws://localhost:8000/ws/live-analytics'', [])"
    using url_resolution [where u = "''ws://localhost:8000/ws/live-analytics''" and w = None
        and ov = JUndefined and win = ?w1 and x = "''a''" and loc = ?l1]
    by simp
  have h2: "(\<forall>u. JUndefined = JStr u \<longrightarrow> u = []) \<and> str_or (WS_URL ?w1) [] = [] \<and>
            str_or (WS_PORT ?w1) [] = [] \<and> location ?w1 = Some ?l1"
    by (simp add: str_or_def)
  have 2: "getUrl JUndefined (Some ?w1) = (''wss://example.com:8000/ws/live-analytics'', [])"
    using url_resolution [where ov = JUndefined and w = "Some ?w1" and win = ?w1 and loc = ?l1
        and u = "''a''" and x = "''a''"] h2
    by (simp add: str_or_def)
  have h3: "(\<forall>u. JStr '''' = JStr u \<longrightarrow> u = []) \<and>
            WS_URL ?w2 = Some ''wss://feed.example.org/stream'' \<and>
            ''wss://feed.example.org/stream'' \<noteq> ''''"
    by simp
  have 3: "getUrl (JStr '''') (Some ?w2) = (''wss://feed.example.org/stream'', [])"
    using url_resolution [where ov = "JStr ''''" and w = "Some ?w2" and win = ?w2
        and x = "''wss://feed.example.org/stream''" and u = "''a''" and loc = ?l1] h3
    by (simp add: str_or_def)
  have h4: "(\<forall>u. JNull = JStr u \<longrightarrow> u = []) \<and> str_or (WS_URL ?w3) [] = [] \<and>
            location ?w3 = None"
    by (simp add: str_or_def)
  have 4: "getUrl JNull (Some ?w3) =
     (''ws://localhost:8000/ws/live-analytics'', [''Error building default WS URL:''])"
    using url_resolution [where ov = JNull and w = "Some ?w3" and win = ?w3
        and u = "''a''" and x = "''a''" and loc = ?l1] h4
    by (simp add: str_or_def)
  from 1 2 3 4 show ?thesis by blast
qed

end
